theory Spec2Isabelle
  imports Main
begin

section \<open>URL shortener: data model\<close>

text \<open>
  The model follows \<^verbatim>\<open>src/types/index.ts\<close>, \<^verbatim>\<open>utils/validation.ts\<close>,
  \<^verbatim>\<open>services/storage.ts\<close> and \<^verbatim>\<open>services/urlService.ts\<close>.

  Conventions of the embedding:
  \<^item> a JavaScript string is a \<^typ>\<open>string\<close>; its code units are restricted to those below 256;
  \<^item> a \<^verbatim>\<open>number\<close> is an \<^typ>\<open>int\<close>: values for which \<^verbatim>\<open>Number.isInteger\<close> is
    false are not represented;
  \<^item> a \<^verbatim>\<open>Date\<close> is its time value in milliseconds since the epoch, \<^term>\<open>None\<close> for the
    invalid date, whose time value is \<^verbatim>\<open>NaN\<close>;
  \<^item> an optional property is an \<^typ>\<open>'a option\<close>, \<^term>\<open>None\<close> for \<^verbatim>\<open>undefined\<close>;
  \<^item> a thrown \<^verbatim>\<open>Error\<close> is a value \<open>Inl (Error message)\<close> of a sum type;
  \<^item> every operation takes the state of the browser (the \<open>world\<close>) and returns the new one.
\<close>

text \<open>
  A JSON text is represented by the document it denotes; the list of a \<open>JObj\<close> is the list
  of the properties of the parsed object, whose names are distinct.
\<close>

datatype json =
  JNull
  | JBool bool
  | JNum int
  | JStr string
  | JArr "json list"
  | JObj "(string \<times> json) list"

type_synonym Date = "int option"

text \<open>
  The records of the store are read back from \<^verbatim>\<open>localStorage\<close> as values of type
  \<^verbatim>\<open>any\<close>, and nothing checks them against the interfaces. So a property of a record, other
  than the dates and the clicks that \<^verbatim>\<open>loadUrls\<close> rebuilds, holds any JSON value or is
  absent (\<^term>\<open>None\<close>). Properties that the interfaces do not name are not represented.
\<close>

type_synonym any = "json option"

record GeoLocation =
  country :: "string option"
  city :: "string option"

record ClickEvent =
  click_id :: any
  timestamp :: Date
  referrer :: any
  userAgent :: any
  ipAddress :: any
  geoLocation :: any

record ShortUrl =
  url_id :: any
  originalUrl :: any
  shortcode :: any
  createdAt :: Date
  expiresAt :: Date
  validityMinutes :: any
  clicks :: "ClickEvent list"
  isCustomShortcode :: any

record CreateUrlRequest =
  req_originalUrl :: string
  req_validityMinutes :: "int option"
  req_customShortcode :: "string option"

record ValidationError =
  field :: string
  message :: string

record CreateUrlsResponse =
  success :: "ShortUrl list"
  errors :: "(int \<times> string) list"

datatype error = Error string

text \<open>A log entry of the logger's queue: level, package and message (the metadata is left out).\<close>

type_synonym LogEntry = "string \<times> string \<times> string"

subsection \<open>The platform\<close>

datatype geo_fetch =
  FetchThrows
  | ResponseNotOk
  | ResponseOk "string option" "string option"

text \<open>
  What the code takes from the browser and from its libraries, none of it code of the
  repository: \<^verbatim>\<open>toISOString\<close> of a valid date, the time value that \<^verbatim>\<open>new Date\<close> reads
  from a string and from an array or object (\<^term>\<open>None\<close> for \<^verbatim>\<open>NaN\<close>), the protocol that
  \<^verbatim>\<open>new URL\<close> parses
  (\<^term>\<open>None\<close> when it throws), the value of \<^verbatim>\<open>Math.floor(Math.random() * chars.length)\<close>
  at the k-th draw, the k-th result of \<^verbatim>\<open>uuidv4\<close>, whether \<^verbatim>\<open>localStorage.setItem\<close>
  throws on a document, \<^verbatim>\<open>document.referrer\<close>, \<^verbatim>\<open>navigator.userAgent\<close> and the outcome
  of the request to the geolocation service.
\<close>

record platform =
  dateToISOString :: "int \<Rightarrow> string"
  dateParse :: "string \<Rightarrow> int option"
  dateOfObject :: "json \<Rightarrow> int option"
  urlProtocol :: "string \<Rightarrow> string option"
  randomIndex :: "nat \<Rightarrow> nat"
  uuidv4 :: "nat \<Rightarrow> string"
  setItemThrows :: "json \<Rightarrow> bool"
  documentReferrer :: string
  navigatorUserAgent :: string
  ipapi :: geo_fetch

text \<open>
  The state of the browser that the services read and write: the contents of
  \<^verbatim>\<open>localStorage\<close>, the queue of the logger, and how many random draws and how many
  identifiers have been taken so far.
\<close>

record world =
  localStorage :: "string \<rightharpoonup> json"
  logQueue :: "LogEntry list"
  randomCalls :: nat
  uuidCalls :: nat

subsection \<open>Logger\<close>

definition Log :: "string \<Rightarrow> string \<Rightarrow> string \<Rightarrow> world \<Rightarrow> world" where
  "Log lvl packageName msg w = w\<lparr>logQueue := logQueue w @ [(lvl, packageName, msg)]\<rparr>"

definition logger_info :: "string \<Rightarrow> string \<Rightarrow> world \<Rightarrow> world" where
  "logger_info packageName msg w = Log ''info'' packageName msg w"

definition logger_warn :: "string \<Rightarrow> string \<Rightarrow> world \<Rightarrow> world" where
  "logger_warn packageName msg w = Log ''warn'' packageName msg w"

definition logger_error :: "string \<Rightarrow> string \<Rightarrow> world \<Rightarrow> world" where
  "logger_error packageName msg w = Log ''error'' packageName msg w"

definition logUrlEvent :: "string \<Rightarrow> world \<Rightarrow> world" where
  "logUrlEvent event w = logger_info ''url-shortener'' event w"

definition logAnalyticsEvent :: "string \<Rightarrow> world \<Rightarrow> world" where
  "logAnalyticsEvent event w = logger_info ''analytics'' event w"

section \<open>Storage service\<close>

definition URLS_KEY :: string where
  "URLS_KEY = ''affordmed_short_urls''"

subsection \<open>Dates\<close>

text \<open>
  \<^verbatim>\<open>new Date(v)\<close> for a value read from a parsed document: the invalid date for
  \<^verbatim>\<open>undefined\<close>, the epoch for \<^verbatim>\<open>null\<close>, the number itself when it is in the range of a
  time value, and what the platform parses for a string and for an array or object. It
  never throws.
\<close>

definition newDate :: "platform \<Rightarrow> any \<Rightarrow> Date" where
  "newDate P v = (case v of
     None \<Rightarrow> None
   | Some JNull \<Rightarrow> Some 0
   | Some (JBool b) \<Rightarrow> Some (if b then 1 else 0)
   | Some (JNum n) \<Rightarrow>
       (if - 8640000000000000 \<le> n \<and> n \<le> 8640000000000000 then Some n else None)
   | Some (JStr str) \<Rightarrow> dateParse P str
   | Some (JArr xs) \<Rightarrow> dateOfObject P (JArr xs)
   | Some (JObj kvs) \<Rightarrow> dateOfObject P (JObj kvs))"

text \<open>The comparisons \<^verbatim>\<open>a > b\<close> and \<^verbatim>\<open>a <= b\<close> of two dates compare the time values, and
  are both false when one of them is \<^verbatim>\<open>NaN\<close>.\<close>

definition date_gt :: "Date \<Rightarrow> Date \<Rightarrow> bool" where
  "date_gt a b = (case a of
     None \<Rightarrow> False
   | Some x \<Rightarrow> (case b of None \<Rightarrow> False | Some y \<Rightarrow> x > y))"

definition date_le :: "Date \<Rightarrow> Date \<Rightarrow> bool" where
  "date_le a b = (case a of
     None \<Rightarrow> False
   | Some x \<Rightarrow> (case b of None \<Rightarrow> False | Some y \<Rightarrow> x \<le> y))"

subsection \<open>Serialisation\<close>

text \<open>
  \<^verbatim>\<open>JSON.stringify\<close> leaves out the properties whose value is \<^verbatim>\<open>undefined\<close>. It writes a
  \<^verbatim>\<open>Date\<close> as what its \<^verbatim>\<open>toJSON\<close> returns, before the replacer of \<^verbatim>\<open>saveUrls\<close> sees the
  value: the string of \<^verbatim>\<open>toISOString\<close> for a valid date, \<^verbatim>\<open>null\<close> for the invalid one.
\<close>

definition anyProp :: "string \<Rightarrow> any \<Rightarrow> (string \<times> json) list" where
  "anyProp k v = (case v of None \<Rightarrow> [] | Some x \<Rightarrow> [(k, x)])"

definition stringifyDate :: "platform \<Rightarrow> Date \<Rightarrow> json" where
  "stringifyDate P d = (case d of None \<Rightarrow> JNull | Some t \<Rightarrow> JStr (dateToISOString P t))"

definition stringifyGeo :: "GeoLocation \<Rightarrow> json" where
  "stringifyGeo g = JObj (
     (case country g of None \<Rightarrow> [] | Some c \<Rightarrow> [(''country'', JStr c)])
     @ (case city g of None \<Rightarrow> [] | Some c \<Rightarrow> [(''city'', JStr c)]))"

definition stringifyClick :: "platform \<Rightarrow> ClickEvent \<Rightarrow> json" where
  "stringifyClick P c = JObj (
     anyProp ''id'' (click_id c)
     @ [(''timestamp'', stringifyDate P (timestamp c))]
     @ anyProp ''referrer'' (referrer c)
     @ anyProp ''userAgent'' (userAgent c)
     @ anyProp ''ipAddress'' (ipAddress c)
     @ anyProp ''geoLocation'' (geoLocation c))"

definition stringifyUrl :: "platform \<Rightarrow> ShortUrl \<Rightarrow> json" where
  "stringifyUrl P u = JObj (
     anyProp ''id'' (url_id u)
     @ anyProp ''originalUrl'' (originalUrl u)
     @ anyProp ''shortcode'' (shortcode u)
     @ [(''createdAt'', stringifyDate P (createdAt u)),
        (''expiresAt'', stringifyDate P (expiresAt u))]
     @ anyProp ''validityMinutes'' (validityMinutes u)
     @ [(''clicks'', JArr (map (stringifyClick P) (clicks u)))]
     @ anyProp ''isCustomShortcode'' (isCustomShortcode u))"

definition stringifyUrls :: "platform \<Rightarrow> ShortUrl list \<Rightarrow> json" where
  "stringifyUrls P urls = JArr (map (stringifyUrl P) urls)"

text \<open>
  Reading a parsed document back. \<^verbatim>\<open>loadUrls\<close> spreads each parsed object and replaces
  \<^verbatim>\<open>createdAt\<close>, \<^verbatim>\<open>expiresAt\<close> and each click's \<^verbatim>\<open>timestamp\<close> by \<^verbatim>\<open>new Date\<close> of the
  stored value; the other properties are taken as they are, present or not. Reading throws,
  and \<^verbatim>\<open>loadUrls\<close> then returns the empty list, exactly when the document is not an array,
  when an element is not an object whose \<^verbatim>\<open>clicks\<close> is an array (its \<^verbatim>\<open>clicks.map\<close> is then
  not a function, or the element is \<^verbatim>\<open>null\<close>), or when a click is \<^verbatim>\<open>null\<close>. A click that is
  a number, a boolean, a string or an array has none of the properties of the interface.
  \<^term>\<open>None\<close> is the thrown \<^verbatim>\<open>TypeError\<close>.
\<close>

definition reviveClick :: "platform \<Rightarrow> json \<Rightarrow> ClickEvent option" where
  "reviveClick P click = (case click of
     JNull \<Rightarrow> None
   | JObj kvs \<Rightarrow>
       Some \<lparr>click_id = map_of kvs ''id'',
             timestamp = newDate P (map_of kvs ''timestamp''),
             referrer = map_of kvs ''referrer'',
             userAgent = map_of kvs ''userAgent'',
             ipAddress = map_of kvs ''ipAddress'',
             geoLocation = map_of kvs ''geoLocation''\<rparr>
   | _ \<Rightarrow>
       Some \<lparr>click_id = None, timestamp = newDate P None, referrer = None,
             userAgent = None, ipAddress = None, geoLocation = None\<rparr>)"

fun sequence :: "'a option list \<Rightarrow> 'a list option" where
  "sequence [] = Some []"
| "sequence (x # xs) =
     (case x of None \<Rightarrow> None
      | Some y \<Rightarrow> (case sequence xs of None \<Rightarrow> None | Some ys \<Rightarrow> Some (y # ys)))"

definition reviveUrl :: "platform \<Rightarrow> json \<Rightarrow> ShortUrl option" where
  "reviveUrl P url = (case url of
     JObj kvs \<Rightarrow>
       (case map_of kvs ''clicks'' of
          Some (JArr cs) \<Rightarrow>
            (case sequence (map (reviveClick P) cs) of
               None \<Rightarrow> None
             | Some cl \<Rightarrow>
                 Some \<lparr>url_id = map_of kvs ''id'',
                       originalUrl = map_of kvs ''originalUrl'',
                       shortcode = map_of kvs ''shortcode'',
                       createdAt = newDate P (map_of kvs ''createdAt''),
                       expiresAt = newDate P (map_of kvs ''expiresAt''),
                       validityMinutes = map_of kvs ''validityMinutes'',
                       clicks = cl,
                       isCustomShortcode = map_of kvs ''isCustomShortcode''\<rparr>)
        | _ \<Rightarrow> None)
   | _ \<Rightarrow> None)"

definition parseUrls :: "platform \<Rightarrow> json \<Rightarrow> ShortUrl list option" where
  "parseUrls P stored = (case stored of
     JArr parsed \<Rightarrow> sequence (map (reviveUrl P) parsed)
   | _ \<Rightarrow> None)"

subsection \<open>Operations\<close>

definition saveUrls :: "platform \<Rightarrow> ShortUrl list \<Rightarrow> world \<Rightarrow> (error + unit) \<times> world" where
  "saveUrls P urls w =
     (let serialized = stringifyUrls P urls in
      if setItemThrows P serialized
      then (Inl (Error ''Failed to save data to storage''),
            logger_error ''storage'' ''Failed to save URLs to localStorage'' w)
      else (Inr (),
            logger_info ''storage'' ''URLs saved to localStorage''
              (w\<lparr>localStorage := (localStorage w)(URLS_KEY \<mapsto> serialized)\<rparr>)))"

definition loadUrls :: "platform \<Rightarrow> world \<Rightarrow> ShortUrl list \<times> world" where
  "loadUrls P w =
     (case localStorage w URLS_KEY of
        None \<Rightarrow> ([], w)
      | Some stored \<Rightarrow>
          (case parseUrls P stored of
             None \<Rightarrow> ([], logger_error ''storage'' ''Failed to load URLs from localStorage'' w)
           | Some urls \<Rightarrow> (urls, logger_info ''storage'' ''URLs loaded from localStorage'' w)))"

definition addUrls :: "platform \<Rightarrow> ShortUrl list \<Rightarrow> world \<Rightarrow> (error + unit) \<times> world" where
  "addUrls P newUrls w =
     (let (existingUrls, w1) = loadUrls P w;
          allUrls = existingUrls @ newUrls
      in case saveUrls P allUrls w1 of
           (Inl e, w2) \<Rightarrow> (Inl e, w2)
         | (Inr u, w2) \<Rightarrow> (Inr (), logUrlEvent ''Multiple URLs created'' w2))"

definition findByShortcode :: "platform \<Rightarrow> int \<Rightarrow> string \<Rightarrow> world \<Rightarrow> ShortUrl option \<times> world" where
  "findByShortcode P now code w =
     (let (urls, w1) = loadUrls P w;
          found = find (\<lambda>url. shortcode url = Some (JStr code)) urls
      in case found of
           None \<Rightarrow> (None, w1)
         | Some f \<Rightarrow>
             if date_gt (Some now) (expiresAt f)
             then (None, logger_warn ''storage'' ''Attempted to access expired URL'' w1)
             else (Some f, w1))"

fun findIndex :: "('a \<Rightarrow> bool) \<Rightarrow> 'a list \<Rightarrow> int" where
  "findIndex p [] = - 1"
| "findIndex p (x # xs) =
     (if p x then 0 else (let i = findIndex p xs in if i = - 1 then - 1 else i + 1))"

definition recordClick :: "platform \<Rightarrow> string \<Rightarrow> ClickEvent \<Rightarrow> world \<Rightarrow> (error + unit) \<times> world" where
  "recordClick P code clickEvent w =
     (let (urls, w1) = loadUrls P w;
          urlIndex = findIndex (\<lambda>url. shortcode url = Some (JStr code)) urls
      in if urlIndex = - 1
         then (Inr (),
               logger_warn ''storage'' ''Attempted to record click for non-existent URL'' w1)
         else
           (let i = nat urlIndex;
                urls' = urls[i := (urls ! i)\<lparr>clicks := clicks (urls ! i) @ [clickEvent]\<rparr>]
            in case saveUrls P urls' w1 of
                 (Inl e, w2) \<Rightarrow> (Inl e, w2)
               | (Inr u, w2) \<Rightarrow> (Inr (), logAnalyticsEvent ''URL clicked'' w2)))"

definition isShortcodeInUse :: "platform \<Rightarrow> string \<Rightarrow> world \<Rightarrow> bool \<times> world" where
  "isShortcodeInUse P code w =
     (let (urls, w1) = loadUrls P w
      in (list_ex (\<lambda>url. shortcode url = Some (JStr code)) urls, w1))"

record Analytics =
  totalUrls :: nat
  totalClicks :: nat
  activeUrls :: nat
  expiredUrls :: nat

definition getAnalytics :: "platform \<Rightarrow> int \<Rightarrow> world \<Rightarrow> Analytics \<times> world" where
  "getAnalytics P now w =
     (let (urls, w1) = loadUrls P w;
          analytics = \<lparr>
            totalUrls = length urls,
            totalClicks = foldl (\<lambda>sum url. sum + length (clicks url)) 0 urls,
            activeUrls = length (filter (\<lambda>url. date_gt (expiresAt url) (Some now)) urls),
            expiredUrls = length (filter (\<lambda>url. date_le (expiresAt url) (Some now)) urls)\<rparr>
      in (analytics, logger_info ''analytics'' ''Analytics data retrieved'' w1))"

section \<open>Validation utilities\<close>

text \<open>\<^verbatim>\<open>String.prototype.trim\<close> on code units below 256: tab, line feed, vertical tab,
  form feed, carriage return, space and the no-break space.\<close>

definition isWhiteSpace :: "char \<Rightarrow> bool" where
  "isWhiteSpace c = (c \<in> set [CHR 0x09, CHR 0x0A, CHR 0x0B, CHR 0x0C, CHR 0x0D, CHR 0x20, CHR 0xA0])"

definition trim :: "string \<Rightarrow> string" where
  "trim s = rev (dropWhile isWhiteSpace (rev (dropWhile isWhiteSpace s)))"

text \<open>The character class \<^verbatim>\<open>[a-zA-Z0-9]\<close>.\<close>

definition isAlnum :: "char \<Rightarrow> bool" where
  "isAlnum c = (let n = (of_char c :: nat) in
     (97 \<le> n \<and> n \<le> 122) \<or> (65 \<le> n \<and> n \<le> 90) \<or> (48 \<le> n \<and> n \<le> 57))"

definition isValidUrl :: "platform \<Rightarrow> string \<Rightarrow> bool" where
  "isValidUrl P url = (case urlProtocol P url of
     None \<Rightarrow> False
   | Some protocol \<Rightarrow> protocol = ''http:'' \<or> protocol = ''https:'')"

text \<open>\<^verbatim>\<open>isValidShortcode\<close> of the validation utilities: the pattern
  \<^verbatim>\<open>/^[a-zA-Z0-9]{3,20}$/\<close>.\<close>

definition validation_isValidShortcode :: "string \<Rightarrow> bool" where
  "validation_isValidShortcode code =
     (list_all isAlnum code \<and> 3 \<le> length code \<and> length code \<le> 20)"

definition isValidValidityMinutes :: "int \<Rightarrow> bool" where
  "isValidValidityMinutes minutes = (minutes > 0 \<and> minutes \<le> 10080)"

definition chars :: string where
  "chars = ''abcdefghijklmnopqrstuvwxyzABCDEFGHIJKLMNOPQRSTUVWXYZ0123456789''"

definition charAt :: "string \<Rightarrow> nat \<Rightarrow> string" where
  "charAt s i = (if i < length s then [s ! i] else [])"

text \<open>The loop of \<^verbatim>\<open>generateShortcode\<close>, by the number of characters still to draw.\<close>

fun generateShortcode :: "platform \<Rightarrow> nat \<Rightarrow> world \<Rightarrow> string \<times> world" where
  "generateShortcode P 0 w = ([], w)"
| "generateShortcode P (Suc n) w =
     (let c = charAt chars (randomIndex P (randomCalls w));
          (rest, w1) = generateShortcode P n (w\<lparr>randomCalls := randomCalls w + 1\<rparr>)
      in (c @ rest, w1))"

definition validateUrlRequest :: "platform \<Rightarrow> CreateUrlRequest \<Rightarrow> world \<Rightarrow> ValidationError list \<times> world" where
  "validateUrlRequest P request w =
     (let errors1 =
            (if req_originalUrl request = [] \<or> trim (req_originalUrl request) = []
             then [\<lparr>field = ''originalUrl'', message = ''URL is required''\<rparr>]
             else if \<not> isValidUrl P (trim (req_originalUrl request))
             then [\<lparr>field = ''originalUrl'',
                    message = ''Invalid URL format. Must start with http:// or https://''\<rparr>]
             else []);
          errors2 = errors1 @
            (case req_validityMinutes request of
               None \<Rightarrow> []
             | Some minutes \<Rightarrow>
                 if \<not> isValidValidityMinutes minutes
                 then [\<lparr>field = ''validityMinutes'',
                        message = ''Validity must be a positive integer between 1 and 10080 minutes (1 week)''\<rparr>]
                 else []);
          errors3 = errors2 @
            (case req_customShortcode request of
               None \<Rightarrow> []
             | Some custom \<Rightarrow>
                 if trim custom \<noteq> []
                 then (if \<not> validation_isValidShortcode (trim custom)
                       then [\<lparr>field = ''customShortcode'',
                              message = ''Shortcode must be 3-20 characters long and contain only letters and numbers''\<rparr>]
                       else [])
                 else [])
      in (errors3,
          if length errors3 > 0
          then logger_warn ''validation'' ''URL request validation failed'' w
          else w))"

definition duplicateError :: ValidationError where
  "duplicateError = \<lparr>field = ''customShortcode'', message = ''Duplicate shortcode in request''\<rparr>"

text \<open>The body of the \<^verbatim>\<open>forEach\<close> of \<^verbatim>\<open>validateUrlRequests\<close>: the requests still to visit, the
  index of the first of them, and the variables \<^verbatim>\<open>valid\<close>, \<^verbatim>\<open>errors\<close> and
  \<^verbatim>\<open>usedShortcodes\<close>.\<close>

fun validateEach ::
  "platform \<Rightarrow> CreateUrlRequest list \<Rightarrow> int \<Rightarrow>
   CreateUrlRequest list \<times> (int \<times> ValidationError list) list \<times> string set \<times> world \<Rightarrow>
   CreateUrlRequest list \<times> (int \<times> ValidationError list) list \<times> string set \<times> world" where
  "validateEach P [] index acc = acc"
| "validateEach P (request # rest) index (valid, errs, usedShortcodes, w) =
     (let (requestErrors, w1) = validateUrlRequest P request w;
          (requestErrors1, usedShortcodes1) =
            (case req_customShortcode request of
               None \<Rightarrow> (requestErrors, usedShortcodes)
             | Some custom \<Rightarrow>
                 if custom \<noteq> [] \<and> trim custom \<noteq> []
                 then (if trim custom \<in> usedShortcodes
                       then (requestErrors @ [duplicateError], usedShortcodes)
                       else (requestErrors, insert (trim custom) usedShortcodes))
                 else (requestErrors, usedShortcodes))
      in if length requestErrors1 = 0
         then validateEach P rest (index + 1) (valid @ [request], errs, usedShortcodes1, w1)
         else validateEach P rest (index + 1)
                (valid, errs @ [(index, requestErrors1)], usedShortcodes1, w1))"

definition validateUrlRequests ::
  "platform \<Rightarrow> CreateUrlRequest list \<Rightarrow> world \<Rightarrow>
   (CreateUrlRequest list \<times> (int \<times> ValidationError list) list) \<times> world" where
  "validateUrlRequests P requests w =
     (if length requests = 0
      then (([], [(0, [\<lparr>field = ''general'', message = ''At least one URL is required''\<rparr>])]),
            logger_warn ''validation'' ''No URLs provided for validation'' w)
      else if length requests > 5
      then (([], [(0, [\<lparr>field = ''general'', message = ''Maximum 5 URLs allowed per request''\<rparr>])]),
            logger_warn ''validation'' ''Too many URLs provided'' w)
      else
        (let (valid, errs, usedShortcodes, w1) = validateEach P requests 0 ([], [], {}, w)
         in ((valid, errs), logger_info ''validation'' ''Bulk validation completed'' w1)))"

definition sanitizeUrl :: "string \<Rightarrow> string" where
  "sanitizeUrl url = trim url"

definition sanitizeShortcode :: "string \<Rightarrow> string" where
  "sanitizeShortcode code = filter isAlnum (trim code)"

section \<open>URL service\<close>

text \<open>\<^verbatim>\<open>Array.prototype.join\<close>.\<close>

fun join :: "string \<Rightarrow> string list \<Rightarrow> string" where
  "join sep [] = []"
| "join sep [x] = x"
| "join sep (x # y # ys) = x @ sep @ join sep (y # ys)"

function generateUniqueShortcode :: "platform \<Rightarrow> nat \<Rightarrow> world \<Rightarrow> (error + string) \<times> world" where
  "generateUniqueShortcode P attempts w =
     (if attempts > 10
      then (Inl (Error ''Unable to generate unique shortcode after multiple attempts''), w)
      else
        (let (code, w1) = generateShortcode P 6 w;
             (inUse, w2) = isShortcodeInUse P code w1
         in if inUse then generateUniqueShortcode P (attempts + 1) w2 else (Inr code, w2)))"
  by pat_completeness auto
termination
  by (relation "measure (\<lambda>(P, attempts, w). 11 - attempts)") auto

declare generateUniqueShortcode.simps [simp del]

text \<open>The clock is read once for an operation: \<open>now\<close> is the value of \<^verbatim>\<open>new Date()\<close>.\<close>

definition createSingleUrl ::
  "platform \<Rightarrow> int \<Rightarrow> CreateUrlRequest \<Rightarrow> world \<Rightarrow> (error + ShortUrl) \<times> world" where
  "createSingleUrl P now request w =
     (let sanitizedUrl = sanitizeUrl (req_originalUrl request);
          minutes = (case req_validityMinutes request of
                       None \<Rightarrow> 30
                     | Some m \<Rightarrow> if m = 0 then 30 else m);
          (code, custom, w1) =
            (case req_customShortcode request of
               None \<Rightarrow>
                 (let (r, w') = generateUniqueShortcode P 0 w in (r, False, w'))
             | Some c \<Rightarrow>
                 if c \<noteq> [] \<and> trim c \<noteq> []
                 then (let sc = sanitizeShortcode c;
                           (inUse, w') = isShortcodeInUse P sc w
                       in if inUse
                          then (Inl (Error (''Shortcode '' @ [CHR 0x22] @ sc @ [CHR 0x22]
                                  @ '' is already in use'')), True, w')
                          else (Inr sc, True, w'))
                 else (let (r, w') = generateUniqueShortcode P 0 w in (r, False, w')))
      in case code of
           Inl e \<Rightarrow> (Inl e, w1)
         | Inr sc \<Rightarrow>
             (let shortUrl = \<lparr>
                    url_id = Some (JStr (uuidv4 P (uuidCalls w1))),
                    originalUrl = Some (JStr sanitizedUrl),
                    shortcode = Some (JStr sc),
                    createdAt = Some now,
                    expiresAt = Some (now + minutes * 60 * 1000),
                    validityMinutes = Some (JNum minutes),
                    clicks = [],
                    isCustomShortcode = Some (JBool custom)\<rparr>
              in (Inr shortUrl,
                  logUrlEvent ''Single URL created'' (w1\<lparr>uuidCalls := uuidCalls w1 + 1\<rparr>))))"

text \<open>The \<^verbatim>\<open>for\<close> loop of \<^verbatim>\<open>createUrls\<close> over the valid requests, with the variables
  \<^verbatim>\<open>success\<close> and \<^verbatim>\<open>finalErrors\<close>.\<close>

fun createEach ::
  "platform \<Rightarrow> int \<Rightarrow> CreateUrlRequest list \<Rightarrow> CreateUrlRequest list \<Rightarrow>
   ShortUrl list \<times> (int \<times> string) list \<times> world \<Rightarrow>
   ShortUrl list \<times> (int \<times> string) list \<times> world" where
  "createEach P now requests [] acc = acc"
| "createEach P now requests (request # rest) (succ, finalErrors, w) =
     (case createSingleUrl P now request w of
        (Inr shortUrl, w1) \<Rightarrow>
          createEach P now requests rest (succ @ [shortUrl], finalErrors, w1)
      | (Inl (Error msg), w1) \<Rightarrow>
          (let originalIndex = findIndex (\<lambda>r.
                 req_originalUrl r = req_originalUrl request \<and>
                 req_customShortcode r = req_customShortcode request) requests
           in createEach P now requests rest
                (succ, finalErrors @ [(originalIndex, msg)], w1)))"

definition createUrls ::
  "platform \<Rightarrow> int \<Rightarrow> CreateUrlRequest list \<Rightarrow> world \<Rightarrow> (error + CreateUrlsResponse) \<times> world" where
  "createUrls P now requests w =
     (let w1 = logUrlEvent ''Bulk URL creation started'' w;
          ((valid, errs), w2) = validateUrlRequests P requests w1;
          finalErrors0 = map (\<lambda>(index, validationErrors).
                            (index, join '', '' (map message validationErrors))) errs;
          (succ, finalErrors, w3) = createEach P now requests valid ([], finalErrors0, w2);
          response = \<lparr>success = succ, errors = finalErrors\<rparr>
      in if length succ > 0
         then (case addUrls P succ w3 of
                 (Inl e, w4) \<Rightarrow> (Inl e, w4)
               | (Inr u, w4) \<Rightarrow> (Inr response, logUrlEvent ''Bulk URL creation completed'' w4))
         else (Inr response, logUrlEvent ''Bulk URL creation completed'' w3))"

definition getGeoLocation :: "platform \<Rightarrow> world \<Rightarrow> GeoLocation \<times> world" where
  "getGeoLocation P w = (case ipapi P of
     ResponseOk c ci \<Rightarrow> (\<lparr>country = c, city = ci\<rparr>, w)
   | ResponseNotOk \<Rightarrow> (\<lparr>country = None, city = None\<rparr>, w)
   | FetchThrows \<Rightarrow>
       (\<lparr>country = None, city = None\<rparr>,
        logger_warn ''url-service'' ''Failed to get geolocation'' w))"

definition redirectUrl :: "platform \<Rightarrow> int \<Rightarrow> string \<Rightarrow> world \<Rightarrow> (error + any) \<times> world" where
  "redirectUrl P now code w =
     (let w1 = logAnalyticsEvent ''Redirect attempt'' w;
          (shortUrl, w2) = findByShortcode P now code w1
      in case shortUrl of
           None \<Rightarrow>
             (Inl (Error ''Short URL not found or has expired''),
              logger_warn ''url-service'' ''Shortcode not found'' w2)
         | Some su \<Rightarrow>
             (let w3 = w2\<lparr>uuidCalls := uuidCalls w2 + 1\<rparr>;
                  (geo, w4) = getGeoLocation P w3;
                  clickEvent = \<lparr>
                    click_id = Some (JStr (uuidv4 P (uuidCalls w2))),
                    timestamp = Some now,
                    referrer = Some (JStr (if documentReferrer P = [] then ''direct''
                                           else documentReferrer P)),
                    userAgent = Some (JStr (navigatorUserAgent P)),
                    ipAddress = None,
                    geoLocation = Some (stringifyGeo geo)\<rparr>
              in case recordClick P code clickEvent w4 of
                   (Inl e, w5) \<Rightarrow> (Inl e, w5)
                 | (Inr u, w5) \<Rightarrow>
                     (Inr (originalUrl su), logAnalyticsEvent ''Redirect successful'' w5)))"


section \<open>Notions used to state the properties\<close>

text \<open>The dates of a record, and the collections whose dates are all valid and are read back
  by the platform from the string it wrote for them.\<close>

definition urlDates :: "ShortUrl \<Rightarrow> Date list" where
  "urlDates u = createdAt u # expiresAt u # map timestamp (clicks u)"

definition datesRoundTrip :: "platform \<Rightarrow> ShortUrl list \<Rightarrow> bool" where
  "datesRoundTrip P urls =
     list_all (\<lambda>d. case d of
                   None \<Rightarrow> False
                 | Some t \<Rightarrow> dateParse P (dateToISOString P t) = Some t)
       (concat (map urlDates urls))"

text \<open>The shortcode a request asks for: its \<^verbatim>\<open>customShortcode\<close> trimmed, when it is given and
  not empty after trimming. The k-th code that \<^verbatim>\<open>generateShortcode(6)\<close> returns, counted from a
  state of the random draws. The record that \<^verbatim>\<open>createSingleUrl\<close> builds, and the message of
  the error that \<^verbatim>\<open>generateUniqueShortcode\<close> throws.\<close>

definition requestedCode :: "CreateUrlRequest \<Rightarrow> string option" where
  "requestedCode r = (case req_customShortcode r of
     None \<Rightarrow> None
   | Some c \<Rightarrow> if c \<noteq> [] \<and> trim c \<noteq> [] then Some (trim c) else None)"

definition nthGenerated :: "platform \<Rightarrow> world \<Rightarrow> nat \<Rightarrow> string" where
  "nthGenerated P w k = fst (generateShortcode P 6 (w\<lparr>randomCalls := randomCalls w + 6 * k\<rparr>))"

definition newShortUrl :: "int \<Rightarrow> CreateUrlRequest \<Rightarrow> string \<Rightarrow> bool \<Rightarrow> string \<Rightarrow> ShortUrl" where
  "newShortUrl now r sc custom uid = \<lparr>
     url_id = Some (JStr uid),
     originalUrl = Some (JStr (sanitizeUrl (req_originalUrl r))),
     shortcode = Some (JStr sc),
     createdAt = Some now,
     expiresAt = Some (now +
       (case req_validityMinutes r of None \<Rightarrow> 30 | Some m \<Rightarrow> if m = 0 then 30 else m)
         * 60 * 1000),
     validityMinutes = Some (JNum
       (case req_validityMinutes r of None \<Rightarrow> 30 | Some m \<Rightarrow> if m = 0 then 30 else m)),
     clicks = [],
     isCustomShortcode = Some (JBool custom)\<rparr>"

definition generationError :: string where
  "generationError = ''Unable to generate unique shortcode after multiple attempts''"

subsection \<open>Concrete inputs for the closed examples\<close>

text \<open>Three sequences of random draws: every code is \<open>aaaaaa\<close>; the first ten codes are
  \<open>aaaaaa\<close> and the next ones \<open>bbbbbb\<close>; the first code is \<open>bbbbbb\<close> and the next ones
  \<open>aaaaaa\<close>.\<close>

definition zeroDraws :: "nat \<Rightarrow> nat" where
  "zeroDraws k = 0"

definition tenCollisions :: "nat \<Rightarrow> nat" where
  "tenCollisions k = (if k < 60 then 0 else 1)"

definition collisionsAfterFirst :: "nat \<Rightarrow> nat" where
  "collisionsAfterFirst k = (if k < 6 then 1 else 0)"

text \<open>A platform whose date codec writes a time value in unary and reads no other string as
  a date, whose URL parser knows the two accepted schemes and whose storage never throws;
  the random draws are a parameter.\<close>

definition examplePlatform :: "(nat \<Rightarrow> nat) \<Rightarrow> platform" where
  "examplePlatform rnd = \<lparr>
     dateToISOString = (\<lambda>t. replicate (nat t) CHR ''1''),
     dateParse = (\<lambda>str. if list_all (\<lambda>c. c = CHR ''1'') str then Some (int (length str))
                        else None),
     dateOfObject = (\<lambda>j. None),
     urlProtocol = (\<lambda>u. if take 8 u = ''https://'' then Some ''https:''
                         else if take 7 u = ''http://'' then Some ''http:'' else None),
     randomIndex = rnd,
     uuidv4 = (\<lambda>k. replicate (Suc k) CHR ''u''),
     setItemThrows = (\<lambda>d. False),
     documentReferrer = [],
     navigatorUserAgent = ''agent'',
     ipapi = ResponseNotOk\<rparr>"

definition exampleClick :: ClickEvent where
  "exampleClick = \<lparr>click_id = Some (JStr ''c1''), timestamp = Some 3,
     referrer = Some (JStr ''direct''), userAgent = Some (JStr ''agent''), ipAddress = None,
     geoLocation = Some (stringifyGeo \<lparr>country = Some ''IN'', city = None\<rparr>)\<rparr>"

definition exampleUrl :: ShortUrl where
  "exampleUrl = \<lparr>url_id = Some (JStr ''u0''), originalUrl = Some (JStr ''https://a.com''),
     shortcode = Some (JStr ''aaaaaa''), createdAt = Some 1, expiresAt = Some 5,
     validityMinutes = Some (JNum 30), clicks = [], isCustomShortcode = Some (JBool False)\<rparr>"

definition exampleWorld :: world where
  "exampleWorld = \<lparr>
     localStorage = [URLS_KEY \<mapsto> stringifyUrls (examplePlatform zeroDraws) [exampleUrl]],
     logQueue = [], randomCalls = 0, uuidCalls = 0\<rparr>"




definition exampleRequest :: CreateUrlRequest where
  "exampleRequest = \<lparr>req_originalUrl = ''https://a.com'', req_validityMinutes = None,
     req_customShortcode = None\<rparr>"

definition promoRequest :: CreateUrlRequest where
  "promoRequest = \<lparr>req_originalUrl = ''https://a.com'', req_validityMinutes = None,
     req_customShortcode = Some ''promo''\<rparr>"

section \<open>Frame properties of logging and loading\<close>

lemma date_cmp [simp]:
  "date_gt (Some x) (Some y) = (x > y)"
  "date_gt None b = False"
  "date_gt a None = False"
  "date_le (Some x) (Some y) = (x \<le> y)"
  "date_le None b = False"
  "date_le a None = False"
  by (simp_all add: date_gt_def date_le_def split: option.splits)

lemma Log_frame [simp]:
  "localStorage (Log l p m w) = localStorage w"
  "randomCalls (Log l p m w) = randomCalls w"
  "uuidCalls (Log l p m w) = uuidCalls w"
  "logQueue (Log l p m w) = logQueue w @ [(l, p, m)]"
  by (simp_all add: Log_def)

lemmas logger_defs = logger_info_def logger_warn_def logger_error_def logUrlEvent_def
  logAnalyticsEvent_def

lemma loadUrls_frame [simp]:
  "localStorage (snd (loadUrls P w)) = localStorage w"
  "randomCalls (snd (loadUrls P w)) = randomCalls w"
  "uuidCalls (snd (loadUrls P w)) = uuidCalls w"
  by (simp_all add: loadUrls_def logger_defs split: option.splits)

lemma loadUrls_cong:
  "localStorage w = localStorage w' \<Longrightarrow> fst (loadUrls P w) = fst (loadUrls P w')"
  by (simp add: loadUrls_def split: option.splits)

lemma loadUrls_Log [simp]: "fst (loadUrls P (Log l p m w)) = fst (loadUrls P w)"
  by (rule loadUrls_cong) simp

section \<open>Counting\<close>




section \<open>Persistence\<close>

lemma map_of_anyProp_same:
  "map_of rest k = None \<Longrightarrow> map_of (anyProp k v @ rest) k = v"
  by (simp add: anyProp_def split: option.splits)

lemma map_of_anyProp_other: "k \<noteq> k' \<Longrightarrow> map_of (anyProp k' v @ rest) k = map_of rest k"
  by (simp add: anyProp_def split: option.splits)

lemma map_of_anyProp_last:
  "map_of (anyProp k' v) k = (if k = k' then v else None)"
  by (simp add: anyProp_def split: option.splits)

lemmas map_of_props = map_of_anyProp_same map_of_anyProp_other map_of_anyProp_last

lemma newDate_stringifyDate:
  "newDate P (Some (stringifyDate P (Some t))) = dateParse P (dateToISOString P t)"
  by (simp add: newDate_def stringifyDate_def)

lemma reviveClick_stringifyClick:
  assumes "timestamp c = Some t" and "dateParse P (dateToISOString P t) = Some t"
  shows "reviveClick P (stringifyClick P c) = Some c"
proof -
  have "reviveClick P (stringifyClick P c) =
      Some \<lparr>click_id = click_id c, timestamp = Some t, referrer = referrer c,
            userAgent = userAgent c, ipAddress = ipAddress c, geoLocation = geoLocation c\<rparr>"
    using assms
    by (simp add: reviveClick_def stringifyClick_def map_of_props newDate_stringifyDate
        del: map_of_append)
  then show ?thesis using assms(1) by (cases c) simp
qed

lemma sequence_map_Some:
  "(\<And>x. x \<in> set xs \<Longrightarrow> f (g x) = Some x) \<Longrightarrow> sequence (map (f \<circ> g) xs) = Some xs"
  by (induction xs) auto

lemma reviveUrl_stringifyUrl:
  assumes "list_all (\<lambda>d. case d of None \<Rightarrow> False
                          | Some t \<Rightarrow> dateParse P (dateToISOString P t) = Some t) (urlDates u)"
  shows "reviveUrl P (stringifyUrl P u) = Some u"
proof -
  obtain ca where ca: "createdAt u = Some ca" "dateParse P (dateToISOString P ca) = Some ca"
    using assms by (auto simp: urlDates_def split: option.splits)
  obtain ea where ea: "expiresAt u = Some ea" "dateParse P (dateToISOString P ea) = Some ea"
    using assms by (auto simp: urlDates_def split: option.splits)
  have "reviveClick P (stringifyClick P c) = Some c" if c: "c \<in> set (clicks u)" for c
  proof -
    have "case timestamp c of None \<Rightarrow> False
          | Some t \<Rightarrow> dateParse P (dateToISOString P t) = Some t"
      using assms c by (simp add: urlDates_def list_all_iff)
    then obtain t where "timestamp c = Some t" and "dateParse P (dateToISOString P t) = Some t"
      by (cases "timestamp c") auto
    then show ?thesis by (rule reviveClick_stringifyClick)
  qed
  then have cl: "sequence (map (reviveClick P \<circ> stringifyClick P) (clicks u)) = Some (clicks u)"
    by (intro sequence_map_Some)
  have "reviveUrl P (stringifyUrl P u) =
      Some \<lparr>url_id = url_id u, originalUrl = originalUrl u, shortcode = shortcode u,
            createdAt = Some ca, expiresAt = Some ea, validityMinutes = validityMinutes u,
            clicks = clicks u, isCustomShortcode = isCustomShortcode u\<rparr>"
    using ca ea cl
    by (simp add: reviveUrl_def stringifyUrl_def map_of_props newDate_stringifyDate
        del: map_of_append)
  then show ?thesis using ca(1) ea(1) by (cases u) simp
qed

lemma parseUrls_stringifyUrls:
  assumes "datesRoundTrip P urls"
  shows "parseUrls P (stringifyUrls P urls) = Some urls"
proof -
  have "sequence (map (reviveUrl P \<circ> stringifyUrl P) urls) = Some urls"
    using assms by (intro sequence_map_Some reviveUrl_stringifyUrl)
      (auto simp: datesRoundTrip_def list_all_iff)
  then show ?thesis by (simp add: parseUrls_def stringifyUrls_def)
qed

lemma loadUrls_stored:
  assumes "localStorage w URLS_KEY = Some (stringifyUrls P urls)" and "datesRoundTrip P urls"
  shows "fst (loadUrls P w) = urls"
  using assms by (simp add: loadUrls_def parseUrls_stringifyUrls)

lemma saveUrls_ok:
  assumes "\<not> setItemThrows P (stringifyUrls P urls)"
  shows "fst (saveUrls P urls w) = Inr ()"
    and "localStorage (snd (saveUrls P urls w)) = (localStorage w)(URLS_KEY \<mapsto> stringifyUrls P urls)"
    and "randomCalls (snd (saveUrls P urls w)) = randomCalls w"
    and "uuidCalls (snd (saveUrls P urls w)) = uuidCalls w"
  using assms by (simp_all add: saveUrls_def logger_info_def)

lemma examplePlatform_sel [simp]:
  "dateToISOString (examplePlatform rnd) = (\<lambda>t. replicate (nat t) CHR ''1'')"
  "dateParse (examplePlatform rnd) =
     (\<lambda>str. if list_all (\<lambda>c. c = CHR ''1'') str then Some (int (length str)) else None)"
  "dateOfObject (examplePlatform rnd) = (\<lambda>j. None)"
  "randomIndex (examplePlatform rnd) = rnd"
  "setItemThrows (examplePlatform rnd) = (\<lambda>d. False)"
  "uuidv4 (examplePlatform rnd) = (\<lambda>k. replicate (Suc k) CHR ''u'')"
  "documentReferrer (examplePlatform rnd) = []"
  "navigatorUserAgent (examplePlatform rnd) = ''agent''"
  "ipapi (examplePlatform rnd) = ResponseNotOk"
  by (simp_all add: examplePlatform_def)

lemma unary_date [simp]: "list_all (\<lambda>c. c = CHR ''1'') (replicate n CHR ''1'')"
  by (simp add: list_all_iff)

lemma stringifyDate_examplePlatform:
  "stringifyDate (examplePlatform rnd) d = stringifyDate (examplePlatform zeroDraws) d"
  by (cases d) (simp_all add: stringifyDate_def)

lemma stringifyUrls_examplePlatform:
  "stringifyUrls (examplePlatform rnd) urls = stringifyUrls (examplePlatform zeroDraws) urls"
  by (simp add: stringifyUrls_def stringifyUrl_def stringifyClick_def
      stringifyDate_examplePlatform [of rnd])

lemma datesRoundTrip_example:
  "list_all (\<lambda>d. case d of None \<Rightarrow> False | Some t \<Rightarrow> 0 \<le> t) (concat (map urlDates urls)) \<Longrightarrow>
   datesRoundTrip (examplePlatform rnd) urls"
  by (auto simp: datesRoundTrip_def list_all_iff split: option.splits)

lemma exampleWorld_urls: "fst (loadUrls (examplePlatform rnd) exampleWorld) = [exampleUrl]"
proof (rule loadUrls_stored)
  show "localStorage exampleWorld URLS_KEY = Some (stringifyUrls (examplePlatform rnd) [exampleUrl])"
    by (simp add: exampleWorld_def stringifyUrls_examplePlatform [of rnd])
  show "datesRoundTrip (examplePlatform rnd) [exampleUrl]"
    by (rule datesRoundTrip_example) (simp add: urlDates_def exampleUrl_def)
qed

text \<open>
  Claim C8. Round trip of the persistence: saving a collection and loading it again gives the
  same collection, field for field, hence the same number of records and of clicks. The
  collection is any list of records whose dates are valid and are read back by the platform
  from the string it wrote for them (\<open>datesRoundTrip\<close>), and the write is one that
  \<^verbatim>\<open>localStorage\<close> accepts.
\<close>

theorem save_load_roundtrip:
  assumes "datesRoundTrip P urls" and "\<not> setItemThrows P (stringifyUrls P urls)"
  shows "fst (saveUrls P urls w) = Inr () \<and>
         fst (loadUrls P (snd (saveUrls P urls w))) = urls \<and>
         length (fst (loadUrls P (snd (saveUrls P urls w)))) = length urls \<and>
         sum_list (map (\<lambda>u. length (clicks u)) (fst (loadUrls P (snd (saveUrls P urls w))))) =
           sum_list (map (\<lambda>u. length (clicks u)) urls)"
proof -
  have "fst (loadUrls P (snd (saveUrls P urls w))) = urls"
    using assms by (intro loadUrls_stored) (simp_all add: saveUrls_ok)
  then show ?thesis using assms by (simp add: saveUrls_ok)
qed

theorem save_load_roundtrip_witness:
  "fst (saveUrls (examplePlatform zeroDraws) [exampleUrl\<lparr>clicks := [exampleClick]\<rparr>] exampleWorld) = Inr () \<and>
   fst (loadUrls (examplePlatform zeroDraws)
      (snd (saveUrls (examplePlatform zeroDraws) [exampleUrl\<lparr>clicks := [exampleClick]\<rparr>] exampleWorld)))
     = [exampleUrl\<lparr>clicks := [exampleClick]\<rparr>]"
proof -
  have d: "datesRoundTrip (examplePlatform zeroDraws) [exampleUrl\<lparr>clicks := [exampleClick]\<rparr>]"
    by (simp add: datesRoundTrip_def urlDates_def exampleUrl_def exampleClick_def)
  have s: "\<not> setItemThrows (examplePlatform zeroDraws)
      (stringifyUrls (examplePlatform zeroDraws) [exampleUrl\<lparr>clicks := [exampleClick]\<rparr>])"
    by simp
  show ?thesis using save_load_roundtrip [OF d s, of exampleWorld] by simp
qed

lemma findIndex_ge: "- 1 \<le> findIndex p xs"
  by (induction xs) (auto simp: Let_def)

lemma findIndex_none: "findIndex p xs = - 1 \<longleftrightarrow> \<not> list_ex p xs"
proof (induction xs)
  case Nil
  then show ?case by simp
next
  case (Cons x xs)
  have "- 1 \<le> findIndex p xs" by (rule findIndex_ge)
  with Cons show ?case by (auto simp: Let_def)
qed

lemma findIndex_first:
  "list_ex p xs \<Longrightarrow>
   0 \<le> findIndex p xs \<and> nat (findIndex p xs) < length xs \<and> p (xs ! nat (findIndex p xs)) \<and>
   (\<forall>j < nat (findIndex p xs). \<not> p (xs ! j))"
proof (induction xs)
  case Nil
  then show ?case by simp
next
  case (Cons x xs)
  show ?case
  proof (cases "p x")
    case True
    then show ?thesis by simp
  next
    case False
    with Cons.prems have ex: "list_ex p xs" by simp
    note IH = Cons.IH [OF ex]
    from IH have nn: "findIndex p xs \<noteq> - 1" by auto
    have idx: "nat (findIndex p xs + 1) = Suc (nat (findIndex p xs))" using IH by auto
    show ?thesis using False IH nn
      by (auto simp: Let_def idx nth_Cons less_Suc_eq_0_disj split: nat.splits)
  qed
qed

lemma findByShortcode_fst:
  "fst (findByShortcode P now code w) =
     (case find (\<lambda>url. shortcode url = Some (JStr code)) (fst (loadUrls P w)) of
        None \<Rightarrow> None
      | Some f \<Rightarrow> if date_gt (Some now) (expiresAt f) then None else Some f)"
  by (simp add: findByShortcode_def split_beta split: option.splits)

lemma findByShortcode_frame [simp]:
  "localStorage (snd (findByShortcode P now code w)) = localStorage w"
  "randomCalls (snd (findByShortcode P now code w)) = randomCalls w"
  "uuidCalls (snd (findByShortcode P now code w)) = uuidCalls w"
  by (simp_all add: findByShortcode_def split_beta logger_warn_def split: option.splits)

section \<open>Analytics\<close>







section \<open>Validity of a shortcode\<close>






section \<open>Recording a click\<close>

lemma recordClick_absent:
  assumes "\<not> list_ex (\<lambda>u. shortcode u = Some (JStr code)) (fst (loadUrls P w))"
  shows "recordClick P code clickEvent w =
     (Inr (), logger_warn ''storage'' ''Attempted to record click for non-existent URL''
                (snd (loadUrls P w)))"
  using assms by (simp add: recordClick_def split_beta findIndex_none)

lemma recordClick_present:
  assumes "list_ex (\<lambda>u. shortcode u = Some (JStr code)) (fst (loadUrls P w))"
    and "urls = fst (loadUrls P w)"
    and "i = nat (findIndex (\<lambda>u. shortcode u = Some (JStr code)) urls)"
    and "\<not> setItemThrows P (stringifyUrls P
           (urls[i := (urls ! i)\<lparr>clicks := clicks (urls ! i) @ [clickEvent]\<rparr>]))"
  shows "fst (recordClick P code clickEvent w) = Inr ()"
    and "localStorage (snd (recordClick P code clickEvent w)) =
           (localStorage w)(URLS_KEY \<mapsto> stringifyUrls P
             (urls[i := (urls ! i)\<lparr>clicks := clicks (urls ! i) @ [clickEvent]\<rparr>]))"
proof -
  have ne: "findIndex (\<lambda>u. shortcode u = Some (JStr code)) (fst (loadUrls P w)) \<noteq> - 1"
    using assms(1) by (simp add: findIndex_none)
  show "fst (recordClick P code clickEvent w) = Inr ()"
    using ne assms(2-4)
    by (simp add: recordClick_def split_beta Let_def saveUrls_def logger_defs)
  show "localStorage (snd (recordClick P code clickEvent w)) =
           (localStorage w)(URLS_KEY \<mapsto> stringifyUrls P
             (urls[i := (urls ! i)\<lparr>clicks := clicks (urls ! i) @ [clickEvent]\<rparr>]))"
    using ne assms(2-4)
    by (simp add: recordClick_def split_beta Let_def saveUrls_def logger_defs)
qed

text \<open>
  Claim C9. \<open>recordClick\<close> appends the click to the clicks of the matching record (the first
  stored record with the shortcode) and persists the whole collection; nothing in it looks
  at \<open>expiresAt\<close>, so the click is recorded for an expired record too. When no stored
  record has the shortcode, it returns without writing: the storage and the stored
  collection are unchanged and the last log entry is the warning.
\<close>

theorem recordClick_appends_or_warns:
  assumes "urls = fst (loadUrls P w)"
    and "i = nat (findIndex (\<lambda>u. shortcode u = Some (JStr code)) urls)"
    and "urls' = urls[i := (urls ! i)\<lparr>clicks := clicks (urls ! i) @ [clickEvent]\<rparr>]"
  shows "(list_ex (\<lambda>u. shortcode u = Some (JStr code)) urls \<and> \<not> setItemThrows P (stringifyUrls P urls') \<longrightarrow>
            i < length urls \<and> shortcode (urls ! i) = Some (JStr code) \<and>
            (\<forall>j < i. shortcode (urls ! j) \<noteq> Some (JStr code)) \<and>
            fst (recordClick P code clickEvent w) = Inr () \<and>
            localStorage (snd (recordClick P code clickEvent w)) =
              (localStorage w)(URLS_KEY \<mapsto> stringifyUrls P urls') \<and>
            (datesRoundTrip P urls' \<longrightarrow>
               fst (loadUrls P (snd (recordClick P code clickEvent w))) = urls')) \<and>
         (\<not> list_ex (\<lambda>u. shortcode u = Some (JStr code)) urls \<longrightarrow>
            fst (recordClick P code clickEvent w) = Inr () \<and>
            localStorage (snd (recordClick P code clickEvent w)) = localStorage w \<and>
            fst (loadUrls P (snd (recordClick P code clickEvent w))) = urls \<and>
            last (logQueue (snd (recordClick P code clickEvent w))) =
              (''warn'', ''storage'', ''Attempted to record click for non-existent URL''))"
proof (intro conjI impI)
  assume a: "\<not> list_ex (\<lambda>u. shortcode u = Some (JStr code)) urls"
  then have r: "recordClick P code clickEvent w =
     (Inr (), logger_warn ''storage'' ''Attempted to record click for non-existent URL''
                (snd (loadUrls P w)))"
    using assms(1) by (simp add: recordClick_absent)
  show "fst (recordClick P code clickEvent w) = Inr ()" by (simp add: r)
  show "localStorage (snd (recordClick P code clickEvent w)) = localStorage w"
    by (simp add: r logger_defs)
  show "fst (loadUrls P (snd (recordClick P code clickEvent w))) = urls"
    by (simp add: r logger_defs assms(1) loadUrls_cong [of "snd (loadUrls P w)" w])
  show "last (logQueue (snd (recordClick P code clickEvent w))) =
      (''warn'', ''storage'', ''Attempted to record click for non-existent URL'')"
    by (simp add: r logger_defs)
next
  assume a: "list_ex (\<lambda>u. shortcode u = Some (JStr code)) urls \<and> \<not> setItemThrows P (stringifyUrls P urls')"
  then have ex: "list_ex (\<lambda>u. shortcode u = Some (JStr code)) urls" by simp
  note f = findIndex_first [OF ex]
  show "i < length urls" using f assms(2) by simp
  show "shortcode (urls ! i) = Some (JStr code)" using f assms(2) by simp
  show "\<forall>j < i. shortcode (urls ! j) \<noteq> Some (JStr code)" using f assms(2) by simp
  have ex': "list_ex (\<lambda>u. shortcode u = Some (JStr code)) (fst (loadUrls P w))" using ex assms(1) by simp
  have nt: "\<not> setItemThrows P (stringifyUrls P
           (urls[i := (urls ! i)\<lparr>clicks := clicks (urls ! i) @ [clickEvent]\<rparr>]))"
    using a assms(3) by simp
  note rp = recordClick_present [OF ex' assms(1) assms(2) nt]
  show "fst (recordClick P code clickEvent w) = Inr ()" by (rule rp(1))
  show ls: "localStorage (snd (recordClick P code clickEvent w)) =
      (localStorage w)(URLS_KEY \<mapsto> stringifyUrls P urls')"
    using rp(2) assms(3) by simp
  {
    assume d: "datesRoundTrip P urls'"
    show "fst (loadUrls P (snd (recordClick P code clickEvent w))) = urls'"
      using ls d by (intro loadUrls_stored) simp_all
  }
qed

theorem recordClick_appends_or_warns_witness:
  "fst (findByShortcode (examplePlatform zeroDraws) 9 ''aaaaaa'' exampleWorld) = None \<and>
   fst (recordClick (examplePlatform zeroDraws) ''aaaaaa'' exampleClick exampleWorld) = Inr () \<and>
   fst (loadUrls (examplePlatform zeroDraws)
      (snd (recordClick (examplePlatform zeroDraws) ''aaaaaa'' exampleClick exampleWorld))) =
     [exampleUrl\<lparr>clicks := [exampleClick]\<rparr>] \<and>
   localStorage (snd (recordClick (examplePlatform zeroDraws) ''zzzzzz'' exampleClick exampleWorld)) =
     localStorage exampleWorld \<and>
   last (logQueue (snd (recordClick (examplePlatform zeroDraws) ''zzzzzz'' exampleClick exampleWorld))) =
     (''warn'', ''storage'', ''Attempted to record click for non-existent URL'')"
proof -
  let ?P = "examplePlatform zeroDraws"
  have u: "[exampleUrl] = fst (loadUrls ?P exampleWorld)" by (simp add: exampleWorld_urls)
  have d: "datesRoundTrip ?P [exampleUrl\<lparr>clicks := [exampleClick]\<rparr>]"
    by (simp add: datesRoundTrip_def urlDates_def exampleUrl_def exampleClick_def)
  have e: "fst (findByShortcode ?P 9 ''aaaaaa'' exampleWorld) = None"
    by (simp add: findByShortcode_fst exampleWorld_urls exampleUrl_def)
  have i1: "0 = nat (findIndex (\<lambda>u. shortcode u = Some (JStr ''aaaaaa'')) [exampleUrl])"
    by (simp add: exampleUrl_def)
  have i2: "0 = nat (findIndex (\<lambda>u. shortcode u = Some (JStr ''zzzzzz'')) [exampleUrl])"
    by (simp add: exampleUrl_def)
  have x1: "[exampleUrl\<lparr>clicks := [exampleClick]\<rparr>] =
     [exampleUrl][0 := ([exampleUrl] ! 0)\<lparr>clicks := clicks ([exampleUrl] ! 0) @ [exampleClick]\<rparr>]"
    by (simp add: exampleUrl_def)
  show ?thesis
    using recordClick_appends_or_warns [OF u i1 x1]
      recordClick_appends_or_warns [OF u i2 x1] d e
    by (simp add: exampleUrl_def)
qed

section \<open>Redirection\<close>

lemma recordClick_no_throw:
  assumes "\<And>d. \<not> setItemThrows P d"
  shows "fst (recordClick P code clickEvent w) = Inr ()"
  using assms by (simp add: recordClick_def split_beta Let_def saveUrls_def)

lemma redirectUrl_not_found:
  assumes "fst (findByShortcode P now code (logAnalyticsEvent ''Redirect attempt'' w)) = None"
  shows "fst (redirectUrl P now code w) = Inl (Error ''Short URL not found or has expired'')"
  using assms by (simp add: redirectUrl_def split_beta Let_def)

lemma redirectUrl_found:
  assumes "fst (findByShortcode P now code (logAnalyticsEvent ''Redirect attempt'' w)) = Some su"
    and "\<And>d. \<not> setItemThrows P d"
  shows "fst (redirectUrl P now code w) = Inr (originalUrl su)"
  using assms
  by (simp add: redirectUrl_def split_beta Let_def recordClick_no_throw split: sum.splits)

lemma findByShortcode_logged:
  "fst (findByShortcode P now code (logAnalyticsEvent ev w)) = fst (findByShortcode P now code w)"
  by (simp add: findByShortcode_fst logger_defs)

lemma redirectUrl_expired_or_absent:
  assumes "find (\<lambda>url. shortcode url = Some (JStr code)) (fst (loadUrls P w)) = None \<or>
           (\<exists>f. find (\<lambda>url. shortcode url = Some (JStr code)) (fst (loadUrls P w)) = Some f \<and>
                date_gt (Some now) (expiresAt f))"
  shows "fst (redirectUrl P now code w) = Inl (Error ''Short URL not found or has expired'')"
proof (rule redirectUrl_not_found)
  show "fst (findByShortcode P now code (logAnalyticsEvent ''Redirect attempt'' w)) = None"
    unfolding findByShortcode_logged using assms by (auto simp: findByShortcode_fst)
qed

text \<open>
  Claim C1. A lookup of a shortcode whose record has \<open>expiresAt \<le> now\<close> is claimed to fail
  like the lookup of a shortcode that was never stored. \<open>findByShortcode\<close> rejects a record
  only when \<open>now > expiresAt\<close>: at the instant \<open>now = expiresAt\<close> the record is found and
  the redirect succeeds, while \<open>getAnalytics\<close> counts the same record as expired. One
  millisecond later the redirect fails with the error of an unknown shortcode.
\<close>

theorem redirect_at_expiry_instant:
  "fst (loadUrls (examplePlatform zeroDraws) exampleWorld) = [exampleUrl] \<and>
   shortcode exampleUrl = Some (JStr ''aaaaaa'') \<and> expiresAt exampleUrl = Some 5 \<and>
   date_le (expiresAt exampleUrl) (Some 5) \<and>
   fst (findByShortcode (examplePlatform zeroDraws) 5 ''aaaaaa'' exampleWorld) = Some exampleUrl \<and>
   fst (redirectUrl (examplePlatform zeroDraws) 5 ''aaaaaa'' exampleWorld) =
     Inr (Some (JStr ''https://a.com'')) \<and>
   fst (redirectUrl (examplePlatform zeroDraws) 5 ''zzzzzz'' exampleWorld) =
     Inl (Error ''Short URL not found or has expired'') \<and>
   fst (redirectUrl (examplePlatform zeroDraws) 6 ''aaaaaa'' exampleWorld) =
     Inl (Error ''Short URL not found or has expired'') \<and>
   expiredUrls (fst (getAnalytics (examplePlatform zeroDraws) 5 exampleWorld)) = 1 \<and>
   activeUrls (fst (getAnalytics (examplePlatform zeroDraws) 5 exampleWorld)) = 0"
proof -
  let ?P = "examplePlatform zeroDraws"
  have f5: "fst (findByShortcode ?P 5 ''aaaaaa'' exampleWorld) = Some exampleUrl"
    by (simp add: findByShortcode_fst exampleWorld_urls) (simp add: exampleUrl_def)
  have f6: "fst (findByShortcode ?P 6 ''aaaaaa'' exampleWorld) = None"
    by (simp add: findByShortcode_fst exampleWorld_urls) (simp add: exampleUrl_def)
  have fz: "fst (findByShortcode ?P 5 ''zzzzzz'' exampleWorld) = None"
    by (simp add: findByShortcode_fst exampleWorld_urls) (simp add: exampleUrl_def)
  have r5: "fst (redirectUrl ?P 5 ''aaaaaa'' exampleWorld) = Inr (originalUrl exampleUrl)"
    by (rule redirectUrl_found) (simp_all add: findByShortcode_logged f5)
  have r6: "fst (redirectUrl ?P 6 ''aaaaaa'' exampleWorld) =
      Inl (Error ''Short URL not found or has expired'')"
    by (rule redirectUrl_not_found) (simp add: findByShortcode_logged f6)
  have rz: "fst (redirectUrl ?P 5 ''zzzzzz'' exampleWorld) =
      Inl (Error ''Short URL not found or has expired'')"
    by (rule redirectUrl_not_found) (simp add: findByShortcode_logged fz)
  have an: "expiredUrls (fst (getAnalytics ?P 5 exampleWorld)) = 1 \<and>
      activeUrls (fst (getAnalytics ?P 5 exampleWorld)) = 0"
    by (simp add: getAnalytics_def split_beta exampleWorld_urls) (simp add: exampleUrl_def)
  show ?thesis using f5 r5 r6 rz an
    by (simp add: exampleWorld_urls) (simp add: exampleUrl_def)
qed

section \<open>Validation and creation of a batch\<close>

lemma logger_frame [simp]:
  "localStorage (logger_info p m w) = localStorage w"
  "randomCalls (logger_info p m w) = randomCalls w"
  "uuidCalls (logger_info p m w) = uuidCalls w"
  "localStorage (logger_warn p m w) = localStorage w"
  "randomCalls (logger_warn p m w) = randomCalls w"
  "uuidCalls (logger_warn p m w) = uuidCalls w"
  "localStorage (logger_error p m w) = localStorage w"
  "randomCalls (logger_error p m w) = randomCalls w"
  "uuidCalls (logger_error p m w) = uuidCalls w"
  "localStorage (logUrlEvent m w) = localStorage w"
  "randomCalls (logUrlEvent m w) = randomCalls w"
  "uuidCalls (logUrlEvent m w) = uuidCalls w"
  "localStorage (logAnalyticsEvent m w) = localStorage w"
  "randomCalls (logAnalyticsEvent m w) = randomCalls w"
  "uuidCalls (logAnalyticsEvent m w) = uuidCalls w"
  by (simp_all add: logger_defs)

lemma validateUrlRequest_frame [simp]:
  "localStorage (snd (validateUrlRequest P r w)) = localStorage w"
  "randomCalls (snd (validateUrlRequest P r w)) = randomCalls w"
  "uuidCalls (snd (validateUrlRequest P r w)) = uuidCalls w"
  by (simp_all add: validateUrlRequest_def Let_def logger_defs)

lemma validateUrlRequest_fst: "fst (validateUrlRequest P r w) = fst (validateUrlRequest P r w')"
  by (simp add: validateUrlRequest_def Let_def)

lemma validateEach_Cons:
  "validateEach P (request # rest) index (valid, errs, used, w) =
     (let requestErrors = fst (validateUrlRequest P request w);
          w1 = snd (validateUrlRequest P request w);
          dup = (case req_customShortcode request of
                   None \<Rightarrow> False
                 | Some custom \<Rightarrow> custom \<noteq> [] \<and> trim custom \<noteq> [] \<and> trim custom \<in> used);
          used1 = (case req_customShortcode request of
                   None \<Rightarrow> used
                 | Some custom \<Rightarrow> if custom \<noteq> [] \<and> trim custom \<noteq> []
                     then insert (trim custom) used else used)
      in if requestErrors = [] \<and> \<not> dup
         then validateEach P rest (index + 1) (valid @ [request], errs, used1, w1)
         else validateEach P rest (index + 1)
                (valid, errs @ [(index, if dup then requestErrors @ [duplicateError] else requestErrors)],
                 used1, w1))"
  by (auto simp: split_beta Let_def insert_absorb split: option.splits)

lemma validateEach_lengths:
  "length (fst (validateEach P rs index (valid, errs, used, w))) +
   length (fst (snd (validateEach P rs index (valid, errs, used, w)))) =
   length valid + length errs + length rs"
proof (induction rs arbitrary: index valid errs used w)
  case Nil
  then show ?case by simp
next
  case (Cons r rs)
  show ?case
    unfolding validateEach_Cons Let_def by (simp add: Cons.IH)
qed

lemma validateEach_frame:
  "localStorage (snd (snd (snd (validateEach P rs index (valid, errs, used, w))))) = localStorage w \<and>
   randomCalls (snd (snd (snd (validateEach P rs index (valid, errs, used, w))))) = randomCalls w \<and>
   uuidCalls (snd (snd (snd (validateEach P rs index (valid, errs, used, w))))) = uuidCalls w"
proof (induction rs arbitrary: index valid errs used w)
  case Nil
  then show ?case by simp
next
  case (Cons r rs)
  show ?case
    unfolding validateEach_Cons Let_def by (simp add: Cons.IH)
qed

lemma validateUrlRequests_lengths:
  assumes "1 \<le> length requests" and "length requests \<le> 5"
  shows "length (fst (fst (validateUrlRequests P requests w))) +
         length (snd (fst (validateUrlRequests P requests w))) = length requests"
  using assms validateEach_lengths [of P requests 0 "[]" "[]" "{}" w]
  by (auto simp: validateUrlRequests_def split_beta)

lemma validateUrlRequests_frame [simp]:
  "localStorage (snd (validateUrlRequests P requests w)) = localStorage w"
  "randomCalls (snd (validateUrlRequests P requests w)) = randomCalls w"
  "uuidCalls (snd (validateUrlRequests P requests w)) = uuidCalls w"
  using validateEach_frame [of P requests 0 "[]" "[]" "{}" w]
  by (simp_all add: validateUrlRequests_def split_beta logger_defs)

lemma validateUrlRequests_rejected:
  assumes "length requests = 0 \<or> length requests > 5"
  shows "fst (validateUrlRequests P requests w) =
     ([], [(0, [\<lparr>field = ''general'',
                 message = (if length requests = 0 then ''At least one URL is required''
                            else ''Maximum 5 URLs allowed per request'')\<rparr>])])"
  using assms by (auto simp: validateUrlRequests_def)

lemma generateShortcode_snd: "snd (generateShortcode P n w) = w\<lparr>randomCalls := randomCalls w + n\<rparr>"
  by (induction n arbitrary: w) (simp_all add: split_beta Let_def)

lemma generateShortcode_fst_cong:
  "randomCalls w = randomCalls w' \<Longrightarrow>
   fst (generateShortcode P n w) = fst (generateShortcode P n w')"
proof (induction n arbitrary: w w')
  case 0
  then show ?case by simp
next
  case (Suc n)
  have "fst (generateShortcode P n (w\<lparr>randomCalls := randomCalls w + 1\<rparr>)) =
        fst (generateShortcode P n (w'\<lparr>randomCalls := randomCalls w' + 1\<rparr>))"
    by (rule Suc.IH) (simp add: Suc.prems)
  then show ?case using Suc.prems by (simp add: split_beta Let_def)
qed

lemma isShortcodeInUse_fst:
  "fst (isShortcodeInUse P code w) = list_ex (\<lambda>url. shortcode url = Some (JStr code)) (fst (loadUrls P w))"
  by (simp add: isShortcodeInUse_def split_beta)

lemma isShortcodeInUse_snd: "snd (isShortcodeInUse P code w) = snd (loadUrls P w)"
  by (simp add: isShortcodeInUse_def split_beta)

lemma isShortcodeInUse_cong:
  "localStorage w = localStorage w' \<Longrightarrow>
   fst (isShortcodeInUse P code w) = fst (isShortcodeInUse P code w')"
  by (simp add: isShortcodeInUse_fst loadUrls_cong [of w w'])

lemma nthGenerated_cong:
  "randomCalls w = randomCalls w' \<Longrightarrow> nthGenerated P w k = nthGenerated P w' k"
  unfolding nthGenerated_def by (rule generateShortcode_fst_cong) simp

lemma nthGenerated_0: "nthGenerated P w 0 = fst (generateShortcode P 6 w)"
  unfolding nthGenerated_def by (rule generateShortcode_fst_cong) simp

lemma nthGenerated_shift:
  "randomCalls w' = randomCalls w + 6 \<Longrightarrow> nthGenerated P w' k = nthGenerated P w (Suc k)"
  unfolding nthGenerated_def by (rule generateShortcode_fst_cong) simp

lemma generateUniqueShortcode_step:
  "attempts \<le> 10 \<Longrightarrow>
   generateUniqueShortcode P attempts w =
     (if fst (isShortcodeInUse P (nthGenerated P w 0) w)
      then generateUniqueShortcode P (attempts + 1)
             (snd (loadUrls P (w\<lparr>randomCalls := randomCalls w + 6\<rparr>)))
      else (Inr (nthGenerated P w 0), snd (loadUrls P (w\<lparr>randomCalls := randomCalls w + 6\<rparr>))))"
  by (subst generateUniqueShortcode.simps)
    (simp add: split_beta Let_def generateShortcode_snd isShortcodeInUse_snd nthGenerated_0
      isShortcodeInUse_cong [of "w\<lparr>randomCalls := randomCalls w + 6\<rparr>" w])

lemma generateUniqueShortcode_frame:
  "localStorage (snd (generateUniqueShortcode P attempts w)) = localStorage w \<and>
   uuidCalls (snd (generateUniqueShortcode P attempts w)) = uuidCalls w"
proof (induction "11 - attempts" arbitrary: attempts w)
  case 0
  then have "attempts > 10" by simp
  then show ?case by (subst generateUniqueShortcode.simps, subst generateUniqueShortcode.simps) simp
next
  case (Suc n)
  then have le: "attempts \<le> 10" by simp
  have n: "n = 11 - Suc attempts" using Suc.hyps(2) by simp
  note IH = Suc.hyps(1) [OF n, of "snd (loadUrls P (w\<lparr>randomCalls := randomCalls w + 6\<rparr>))"]
  show ?case using IH by (simp add: generateUniqueShortcode_step [OF le])
qed

lemma generateUniqueShortcode_exhausted:
  "(\<And>k. k < 11 - attempts \<Longrightarrow> fst (isShortcodeInUse P (nthGenerated P w k) w)) \<Longrightarrow>
   fst (generateUniqueShortcode P attempts w) =
     Inl (Error ''Unable to generate unique shortcode after multiple attempts'')"
proof (induction "11 - attempts" arbitrary: attempts w)
  case 0
  then have "attempts > 10" by simp
  then show ?case by (subst generateUniqueShortcode.simps) simp
next
  case (Suc n)
  then have le: "attempts \<le> 10" by simp
  have n: "n = 11 - (attempts + 1)" using Suc.hyps(2) by simp
  let ?w = "snd (loadUrls P (w\<lparr>randomCalls := randomCalls w + 6\<rparr>))"
  have first: "fst (isShortcodeInUse P (nthGenerated P w 0) w)"
    using Suc.prems [of 0] Suc.hyps(2) by simp
  have rest: "fst (isShortcodeInUse P (nthGenerated P ?w k) ?w)" if "k < 11 - (attempts + 1)" for k
  proof -
    have "fst (isShortcodeInUse P (nthGenerated P w (Suc k)) w)"
      using Suc.prems [of "Suc k"] that by simp
    moreover have "nthGenerated P ?w k = nthGenerated P w (Suc k)"
      by (rule nthGenerated_shift) simp
    moreover have "fst (isShortcodeInUse P (nthGenerated P w (Suc k)) ?w) =
        fst (isShortcodeInUse P (nthGenerated P w (Suc k)) w)"
      by (rule isShortcodeInUse_cong) simp
    ultimately show ?thesis by simp
  qed
  show ?case
    using first Suc.hyps(1) [OF n rest] by (simp add: generateUniqueShortcode_step [OF le])
qed

lemma generateUniqueShortcode_first_free:
  "j < 11 - attempts \<Longrightarrow>
   (\<And>k. k < j \<Longrightarrow> fst (isShortcodeInUse P (nthGenerated P w k) w)) \<Longrightarrow>
   \<not> fst (isShortcodeInUse P (nthGenerated P w j) w) \<Longrightarrow>
   fst (generateUniqueShortcode P attempts w) = Inr (nthGenerated P w j) \<and>
   randomCalls (snd (generateUniqueShortcode P attempts w)) = randomCalls w + 6 * (j + 1)"
proof (induction j arbitrary: attempts w)
  case 0
  then have le: "attempts \<le> 10" by simp
  show ?case using 0(3) by (simp add: generateUniqueShortcode_step [OF le])
next
  case (Suc j)
  then have le: "attempts \<le> 10" by simp
  let ?w = "snd (loadUrls P (w\<lparr>randomCalls := randomCalls w + 6\<rparr>))"
  have first: "fst (isShortcodeInUse P (nthGenerated P w 0) w)"
    using Suc.prems(2) [of 0] by simp
  have sh: "nthGenerated P ?w k = nthGenerated P w (Suc k)" for k
    by (rule nthGenerated_shift) simp
  have cg: "fst (isShortcodeInUse P c ?w) = fst (isShortcodeInUse P c w)" for c
    by (rule isShortcodeInUse_cong) simp
  have a: "j < 11 - (attempts + 1)" using Suc.prems(1) by simp
  have b: "fst (isShortcodeInUse P (nthGenerated P ?w k) ?w)" if "k < j" for k
    using Suc.prems(2) [of "Suc k"] that by (simp add: sh cg)
  have c: "\<not> fst (isShortcodeInUse P (nthGenerated P ?w j) ?w)"
    using Suc.prems(3) by (simp add: sh cg)
  show ?case
    using first Suc.IH [OF a b c] by (simp add: generateUniqueShortcode_step [OF le] sh)
qed

lemma createSingleUrl_generated:
  assumes "requestedCode r = None"
  shows "createSingleUrl P now r w =
     (case fst (generateUniqueShortcode P 0 w) of
        Inl e \<Rightarrow> (Inl e, snd (generateUniqueShortcode P 0 w))
      | Inr sc \<Rightarrow>
          (Inr (newShortUrl now r sc False (uuidv4 P (uuidCalls w))),
           logUrlEvent ''Single URL created''
             ((snd (generateUniqueShortcode P 0 w))
                \<lparr>uuidCalls := uuidCalls (snd (generateUniqueShortcode P 0 w)) + 1\<rparr>)))"
  using assms
  by (auto simp: createSingleUrl_def requestedCode_def newShortUrl_def split_beta Let_def
      generateUniqueShortcode_frame split: option.splits sum.splits if_splits)

lemma createSingleUrl_custom:
  assumes "req_customShortcode r = Some c" and "c \<noteq> []" and "trim c \<noteq> []"
  shows "createSingleUrl P now r w =
     (if fst (isShortcodeInUse P (sanitizeShortcode c) w)
      then (Inl (Error (''Shortcode '' @ [CHR 0x22] @ sanitizeShortcode c @ [CHR 0x22]
                  @ '' is already in use'')), snd (loadUrls P w))
      else (Inr (newShortUrl now r (sanitizeShortcode c) True (uuidv4 P (uuidCalls w))),
            logUrlEvent ''Single URL created''
              ((snd (loadUrls P w))\<lparr>uuidCalls := uuidCalls (snd (loadUrls P w)) + 1\<rparr>)))"
  using assms
  by (simp add: createSingleUrl_def newShortUrl_def split_beta Let_def isShortcodeInUse_snd)

lemma createSingleUrl_frame [simp]:
  "localStorage (snd (createSingleUrl P now r w)) = localStorage w"
proof (cases "requestedCode r")
  case None
  show ?thesis
    by (simp add: createSingleUrl_generated [OF None] generateUniqueShortcode_frame logger_defs
        split: sum.splits)
next
  case (Some t)
  then obtain c where "req_customShortcode r = Some c" and "c \<noteq> []" and "trim c \<noteq> []"
    by (auto simp: requestedCode_def split: option.splits if_splits)
  then show ?thesis
    by (simp add: createSingleUrl_custom logger_defs)
qed

lemma createEach_Cons:
  "createEach P now requests (r # rest) (succ, errs, w) =
     (case fst (createSingleUrl P now r w) of
        Inr shortUrl \<Rightarrow>
          createEach P now requests rest (succ @ [shortUrl], errs, snd (createSingleUrl P now r w))
      | Inl e \<Rightarrow>
          createEach P now requests rest
            (succ, errs @ [(findIndex (\<lambda>q. req_originalUrl q = req_originalUrl r \<and>
                   req_customShortcode q = req_customShortcode r) requests,
                 case e of Error msg \<Rightarrow> msg)],
             snd (createSingleUrl P now r w)))"
  by (cases "createSingleUrl P now r w")
    (auto simp: Let_def split: sum.splits error.splits)

lemma createEach_lengths:
  "length (fst (createEach P now requests valid (succ, errs, w))) +
   length (fst (snd (createEach P now requests valid (succ, errs, w)))) =
   length succ + length errs + length valid"
proof (induction valid arbitrary: succ errs w)
  case Nil
  then show ?case by simp
next
  case (Cons r rest)
  show ?case
    unfolding createEach_Cons by (simp add: Cons.IH split: sum.splits)
qed

lemma createEach_frame:
  "localStorage (snd (snd (createEach P now requests valid (succ, errs, w)))) = localStorage w"
proof (induction valid arbitrary: succ errs w)
  case Nil
  then show ?case by simp
next
  case (Cons r rest)
  show ?case
    unfolding createEach_Cons by (simp add: Cons.IH split: sum.splits)
qed

lemma createEach_errors_prefix:
  "\<exists>more. fst (snd (createEach P now requests valid (succ, errs, w))) = errs @ more"
proof (induction valid arbitrary: succ errs w)
  case Nil
  then show ?case by simp
next
  case (Cons r rest)
  show ?case
  proof (cases "fst (createSingleUrl P now r w)")
    case (Inl e)
    obtain more where "fst (snd (createEach P now requests rest
        (succ, errs @ [(findIndex (\<lambda>q. req_originalUrl q = req_originalUrl r \<and>
                   req_customShortcode q = req_customShortcode r) requests,
                 case e of Error msg \<Rightarrow> msg)],
             snd (createSingleUrl P now r w)))) =
        (errs @ [(findIndex (\<lambda>q. req_originalUrl q = req_originalUrl r \<and>
                   req_customShortcode q = req_customShortcode r) requests,
                 case e of Error msg \<Rightarrow> msg)]) @ more"
      using Cons.IH by blast
    then show ?thesis unfolding createEach_Cons by (simp add: Inl)
  next
    case (Inr u)
    then show ?thesis unfolding createEach_Cons using Cons.IH by simp
  qed
qed

lemma addUrls_fst:
  "fst (addUrls P newUrls w) =
     (if setItemThrows P (stringifyUrls P (fst (loadUrls P w) @ newUrls))
      then Inl (Error ''Failed to save data to storage'') else Inr ())"
  by (simp add: addUrls_def split_beta Let_def saveUrls_def)

lemma createUrls_fst:
  "fst (createUrls P now requests w) =
     (let w1 = logUrlEvent ''Bulk URL creation started'' w;
          v = validateUrlRequests P requests w1;
          finalErrors0 = map (\<lambda>(index, validationErrors).
                            (index, join '', '' (map message validationErrors))) (snd (fst v));
          c = createEach P now requests (fst (fst v)) ([], finalErrors0, snd v)
      in if length (fst c) > 0 \<and> fst (addUrls P (fst c) (snd (snd c))) \<noteq> Inr ()
         then Inl (Error ''Failed to save data to storage'')
         else Inr \<lparr>success = fst c, errors = fst (snd c)\<rparr>)"
  by (auto simp: createUrls_def split_beta Let_def addUrls_fst split: sum.splits prod.splits)

lemma createSingleUrl_first_free:
  assumes "requestedCode r = None" and "j < 11"
    and "\<And>k. k < j \<Longrightarrow> fst (isShortcodeInUse P (nthGenerated P w k) w)"
    and "\<not> fst (isShortcodeInUse P (nthGenerated P w j) w)"
  shows "fst (createSingleUrl P now r w) =
           Inr (newShortUrl now r (nthGenerated P w j) False (uuidv4 P (uuidCalls w)))"
    and "randomCalls (snd (createSingleUrl P now r w)) = randomCalls w + 6 * (j + 1)"
    and "uuidCalls (snd (createSingleUrl P now r w)) = uuidCalls w + 1"
proof -
  have j: "j < 11 - 0" using assms(2) by simp
  note g = generateUniqueShortcode_first_free [OF j assms(3) assms(4)]
  show "fst (createSingleUrl P now r w) =
           Inr (newShortUrl now r (nthGenerated P w j) False (uuidv4 P (uuidCalls w)))"
    using g by (simp add: createSingleUrl_generated [OF assms(1)])
  show "randomCalls (snd (createSingleUrl P now r w)) = randomCalls w + 6 * (j + 1)"
    using g by (simp add: createSingleUrl_generated [OF assms(1)] logger_defs)
  show "uuidCalls (snd (createSingleUrl P now r w)) = uuidCalls w + 1"
    using g by (simp add: createSingleUrl_generated [OF assms(1)] logger_defs
        generateUniqueShortcode_frame)
qed

lemma createSingleUrl_exhausted:
  assumes "requestedCode r = None"
    and "\<And>k. k < 11 \<Longrightarrow> fst (isShortcodeInUse P (nthGenerated P w k) w)"
  shows "fst (createSingleUrl P now r w) =
           Inl (Error ''Unable to generate unique shortcode after multiple attempts'')"
proof -
  have "fst (generateUniqueShortcode P 0 w) =
      Inl (Error ''Unable to generate unique shortcode after multiple attempts'')"
    by (rule generateUniqueShortcode_exhausted) (simp add: assms(2))
  then show ?thesis by (simp add: createSingleUrl_generated [OF assms(1)])
qed

lemma generateShortcode_6:
  "fst (generateShortcode P 6 w) =
     charAt chars (randomIndex P (randomCalls w)) @
     charAt chars (randomIndex P (randomCalls w + 1)) @
     charAt chars (randomIndex P (randomCalls w + 2)) @
     charAt chars (randomIndex P (randomCalls w + 3)) @
     charAt chars (randomIndex P (randomCalls w + 4)) @
     charAt chars (randomIndex P (randomCalls w + 5))"
  by (simp add: eval_nat_numeral split_beta Let_def)

lemma charAt_chars_0: "charAt chars 0 = ''a''"
  by (simp add: charAt_def chars_def)

lemma charAt_chars_1: "charAt chars (Suc 0) = ''b''"
  by (simp add: charAt_def chars_def)

declare validateEach.simps(2) [simp del] createEach.simps(2) [simp del]

lemma validateEach_valid_generated:
  assumes "\<And>w'. fst (validateUrlRequest P r w') = []" and "requestedCode r = None"
  shows "validateEach P (r # rest) index (valid, errs, used, w) =
         validateEach P rest (index + 1) (valid @ [r], errs, used, snd (validateUrlRequest P r w))"
  using assms
  by (auto simp: validateEach_Cons requestedCode_def Let_def split: option.splits if_splits)

lemma createUrls_single_exhausted:
  assumes nc: "requestedCode request = None"
    and valid: "fst (validateUrlRequest P request w) = []"
    and used: "\<And>k. k < 11 \<Longrightarrow> fst (isShortcodeInUse P (nthGenerated P w k) w)"
  shows "fst (createUrls P now [request] w) = Inr \<lparr>success = [], errors = [(0, generationError)]\<rparr>"
proof -
  let ?w1 = "logUrlEvent ''Bulk URL creation started'' w"
  let ?v = "validateUrlRequests P [request] ?w1"
  have v: "fst (validateUrlRequest P request w') = []" for w'
    using valid validateUrlRequest_fst [of P request w' w] by simp
  have fv: "fst ?v = ([request], [])"
    by (simp add: validateUrlRequests_def split_beta validateEach_valid_generated [OF v nc])
  have used': "fst (isShortcodeInUse P (nthGenerated P (snd ?v) k) (snd ?v))" if "k < 11" for k
  proof -
    have "nthGenerated P (snd ?v) k = nthGenerated P w k"
      by (rule nthGenerated_cong) simp
    moreover have "fst (isShortcodeInUse P (nthGenerated P w k) (snd ?v)) =
        fst (isShortcodeInUse P (nthGenerated P w k) w)"
      by (rule isShortcodeInUse_cong) simp
    ultimately show ?thesis using used [OF that] by simp
  qed
  have ce: "fst (createSingleUrl P now request (snd ?v)) = Inl (Error generationError)"
    unfolding generationError_def by (rule createSingleUrl_exhausted [OF nc used'])
  show ?thesis
    by (simp add: createUrls_fst Let_def fv createEach_Cons ce)
qed

lemma nthGenerated_example:
  "nthGenerated (examplePlatform rnd) w k =
     charAt chars (rnd (randomCalls w + 6 * k)) @
     charAt chars (rnd (randomCalls w + 6 * k + 1)) @
     charAt chars (rnd (randomCalls w + 6 * k + 2)) @
     charAt chars (rnd (randomCalls w + 6 * k + 3)) @
     charAt chars (rnd (randomCalls w + 6 * k + 4)) @
     charAt chars (rnd (randomCalls w + 6 * k + 5))"
  by (simp add: nthGenerated_def generateShortcode_6)

lemma exampleWorld_inUse:
  "localStorage w = localStorage exampleWorld \<Longrightarrow>
   fst (isShortcodeInUse (examplePlatform rnd) code w) = (code = ''aaaaaa'')"
  using isShortcodeInUse_cong [of w exampleWorld "examplePlatform rnd" code]
  by (auto simp: isShortcodeInUse_fst exampleWorld_urls exampleUrl_def)

lemma exampleRequest_valid: "fst (validateUrlRequest (examplePlatform rnd) exampleRequest w) = []"
  by (simp add: validateUrlRequest_def exampleRequest_def Let_def isValidUrl_def
      examplePlatform_def trim_def isWhiteSpace_def)

lemma exampleRequest_generated: "requestedCode exampleRequest = None"
  by (simp add: requestedCode_def exampleRequest_def)

lemma upt_11: "[0..<11] = [0, 1, 2, 3, 4, 5, 6, 7, 8, 9, 10::nat]"
  by (simp add: upt_rec)

lemma createUrls_single_created:
  assumes nc: "requestedCode request = None"
    and valid: "fst (validateUrlRequest P request w) = []"
    and j: "j < 11"
    and used: "\<And>k. k < j \<Longrightarrow> fst (isShortcodeInUse P (nthGenerated P w k) w)"
    and free: "\<not> fst (isShortcodeInUse P (nthGenerated P w j) w)"
    and nothrow: "\<And>d. \<not> setItemThrows P d"
  shows "fst (createUrls P now [request] w) =
     Inr \<lparr>success = [newShortUrl now request (nthGenerated P w j) False (uuidv4 P (uuidCalls w))],
          errors = []\<rparr>"
proof -
  let ?w1 = "logUrlEvent ''Bulk URL creation started'' w"
  let ?v = "validateUrlRequests P [request] ?w1"
  have v: "fst (validateUrlRequest P request w') = []" for w'
    using valid validateUrlRequest_fst [of P request w' w] by simp
  have fv: "fst ?v = ([request], [])"
    by (simp add: validateUrlRequests_def split_beta validateEach_valid_generated [OF v nc])
  have ng: "nthGenerated P (snd ?v) k = nthGenerated P w k" for k
    by (rule nthGenerated_cong) simp
  have iu: "fst (isShortcodeInUse P c (snd ?v)) = fst (isShortcodeInUse P c w)" for c
    by (rule isShortcodeInUse_cong) simp
  have used': "fst (isShortcodeInUse P (nthGenerated P (snd ?v) k) (snd ?v))" if "k < j" for k
    using used [OF that] by (simp add: ng iu)
  have free': "\<not> fst (isShortcodeInUse P (nthGenerated P (snd ?v) j) (snd ?v))"
    using free by (simp add: ng iu)
  have ce: "fst (createSingleUrl P now request (snd ?v)) =
      Inr (newShortUrl now request (nthGenerated P w j) False (uuidv4 P (uuidCalls w)))"
    using createSingleUrl_first_free(1) [OF nc j used' free', of now]
    by (simp add: ng)
  show ?thesis
    by (simp add: createUrls_fst Let_def fv createEach_Cons ce addUrls_fst nothrow)
qed

lemma validateEach_Cons_requested:
  "validateEach P (request # rest) index (valid, errs, used, w) =
     (if fst (validateUrlRequest P request w) = [] \<and>
         (case requestedCode request of None \<Rightarrow> True | Some t \<Rightarrow> t \<notin> used)
      then validateEach P rest (index + 1)
             (valid @ [request], errs,
              (case requestedCode request of None \<Rightarrow> used | Some t \<Rightarrow> insert t used),
              snd (validateUrlRequest P request w))
      else validateEach P rest (index + 1)
             (valid,
              errs @ [(index,
                 (case requestedCode request of
                    None \<Rightarrow> fst (validateUrlRequest P request w)
                  | Some t \<Rightarrow> if t \<in> used
                      then fst (validateUrlRequest P request w) @ [duplicateError]
                      else fst (validateUrlRequest P request w)))],
              (case requestedCode request of None \<Rightarrow> used | Some t \<Rightarrow> insert t used),
              snd (validateUrlRequest P request w)))"
  by (auto simp: validateEach_Cons requestedCode_def Let_def insert_absorb split: option.splits)

lemma validateEach_errors_prefix:
  "\<exists>more. fst (snd (validateEach P rs index (valid, errs, used, w))) = errs @ more"
proof (induction rs arbitrary: index valid errs used w)
  case Nil
  then show ?case by simp
next
  case (Cons r rs)
  show ?case
  proof (cases "fst (validateUrlRequest P r w) = [] \<and>
         (case requestedCode r of None \<Rightarrow> True | Some t \<Rightarrow> t \<notin> used)")
    case True
    show ?thesis unfolding validateEach_Cons_requested if_P [OF True] by (rule Cons.IH)
  next
    case False
    let ?e = "(index,
                 (case requestedCode r of
                    None \<Rightarrow> fst (validateUrlRequest P r w)
                  | Some t \<Rightarrow> if t \<in> used
                      then fst (validateUrlRequest P r w) @ [duplicateError]
                      else fst (validateUrlRequest P r w)))"
    obtain more where "fst (snd (validateEach P rs (index + 1)
        (valid, errs @ [?e],
         (case requestedCode r of None \<Rightarrow> used | Some t \<Rightarrow> insert t used),
         snd (validateUrlRequest P r w)))) = (errs @ [?e]) @ more"
      using Cons.IH by blast
    then show ?thesis unfolding validateEach_Cons_requested if_not_P [OF False] by simp
  qed
qed

lemma validateEach_duplicates:
  assumes "j < length rs" and "requestedCode (rs ! j) = Some t"
    and "t \<in> used \<or> (\<exists>i<j. requestedCode (rs ! i) = Some t)"
  shows "(index + int j, fst (validateUrlRequest P (rs ! j) w0) @ [duplicateError])
           \<in> set (fst (snd (validateEach P rs index (valid, errs, used, w))))"
  using assms
proof (induction rs arbitrary: j index valid errs used w)
  case Nil
  then show ?case by simp
next
  case (Cons r rs)
  let ?used1 = "(case requestedCode r of None \<Rightarrow> used | Some t \<Rightarrow> insert t used)"
  let ?w1 = "snd (validateUrlRequest P r w)"
  show ?case
  proof (cases j)
    case 0
    with Cons.prems have rt: "requestedCode r = Some t" and tu: "t \<in> used" by auto
    let ?e = "(index, fst (validateUrlRequest P r w) @ [duplicateError])"
    obtain more where "fst (snd (validateEach P rs (index + 1)
        (valid, errs @ [?e], insert t used, ?w1))) = (errs @ [?e]) @ more"
      using validateEach_errors_prefix by blast
    then have "?e \<in> set (fst (snd (validateEach P (r # rs) index (valid, errs, used, w))))"
      unfolding validateEach_Cons_requested using rt tu by simp
    then show ?thesis
      using 0 validateUrlRequest_fst [of P r w w0] by simp
  next
    case (Suc j')
    with Cons.prems have lt: "j' < length rs" and rt: "requestedCode (rs ! j') = Some t" by auto
    have pre: "t \<in> ?used1 \<or> (\<exists>i<j'. requestedCode (rs ! i) = Some t)"
    proof -
      from Cons.prems(3) show ?thesis
      proof
        assume "t \<in> used"
        then show ?thesis by (simp split: option.splits)
      next
        assume "\<exists>i<j. requestedCode ((r # rs) ! i) = Some t"
        then obtain i where i: "i < j" and ri: "requestedCode ((r # rs) ! i) = Some t" by blast
        show ?thesis
        proof (cases i)
          case 0
          with ri show ?thesis by simp
        next
          case (Suc i')
          with i ri Suc show ?thesis using \<open>j = Suc j'\<close> by auto
        qed
      qed
    qed
    have ih: "(index + 1 + int j', fst (validateUrlRequest P (rs ! j') w0) @ [duplicateError])
           \<in> set (fst (snd (validateEach P rs (index + 1) (v, e, ?used1, ?w1))))" for v e
      by (rule Cons.IH [OF lt rt pre])
    have idx: "index + int j = index + 1 + int j'" using Suc by simp
    show ?thesis
      unfolding validateEach_Cons_requested idx using ih Suc by simp
  qed
qed

lemma createUrls_errors_include_validation:
  assumes "fst (createUrls P now requests w) = Inr response"
    and "(index, errs) \<in> set (snd (fst (validateUrlRequests P requests
            (logUrlEvent ''Bulk URL creation started'' w))))"
  shows "(index, join '', '' (map message errs)) \<in> set (errors response)"
proof -
  let ?v = "validateUrlRequests P requests (logUrlEvent ''Bulk URL creation started'' w)"
  let ?e0 = "map (\<lambda>(index, validationErrors).
                (index, join '', '' (map message validationErrors))) (snd (fst ?v))"
  let ?c = "createEach P now requests (fst (fst ?v)) ([], ?e0, snd ?v)"
  have r: "response = \<lparr>success = fst ?c, errors = fst (snd ?c)\<rparr>"
    using assms(1) unfolding createUrls_fst Let_def by (simp split: if_splits)
  obtain more where m: "fst (snd ?c) = ?e0 @ more"
    using createEach_errors_prefix by blast
  have "(index, join '', '' (map message errs)) \<in> set ?e0"
    using assms(2) by force
  then show ?thesis using r m by simp
qed

lemma sanitizeShortcode_valid:
  "validation_isValidShortcode (trim c) \<Longrightarrow> sanitizeShortcode c = trim c"
  by (simp add: validation_isValidShortcode_def sanitizeShortcode_def list_all_iff)

lemma createUrls_same_custom_twice:
  assumes c1: "req_customShortcode r1 = Some c" and c2: "req_customShortcode r2 = Some c"
    and ok: "validation_isValidShortcode (trim c)"
    and valid: "fst (validateUrlRequest P r1 w) = []"
    and free: "\<not> fst (isShortcodeInUse P (trim c) w)"
    and nothrow: "\<And>d. \<not> setItemThrows P d"
  shows "fst (createUrls P now [r1, r2] w) =
        Inr \<lparr>success = [newShortUrl now r1 (trim c) True (uuidv4 P (uuidCalls w))],
             errors = [(1, join '', '' (map message
                          (fst (validateUrlRequest P r2 w) @ [duplicateError])))]\<rparr>"
proof -
  let ?w1 = "logUrlEvent ''Bulk URL creation started'' w"
  let ?v = "validateUrlRequests P [r1, r2] ?w1"
  have ne: "trim c \<noteq> []"
    using ok by (auto simp: validation_isValidShortcode_def)
  have ne': "c \<noteq> []"
    using ne by (auto simp: trim_def)
  have q1: "requestedCode r1 = Some (trim c)" and q2: "requestedCode r2 = Some (trim c)"
    using c1 c2 ne ne' by (simp_all add: requestedCode_def)
  have v1: "fst (validateUrlRequest P r1 w') = []" for w'
    using valid validateUrlRequest_fst [of P r1 w' w] by simp
  have v2: "fst (validateUrlRequest P r2 (snd (validateUrlRequest P r1 ?w1))) =
      fst (validateUrlRequest P r2 w)"
    by (rule validateUrlRequest_fst)
  have fv: "fst ?v = ([r1], [(1, fst (validateUrlRequest P r2 w) @ [duplicateError])])"
    by (simp add: validateUrlRequests_def split_beta validateEach_Cons_requested q1 q2 v1 v2)
  have iu: "fst (isShortcodeInUse P x (snd ?v)) = fst (isShortcodeInUse P x w)" for x
    by (rule isShortcodeInUse_cong) simp
  have ce: "fst (createSingleUrl P now r1 (snd ?v)) =
      Inr (newShortUrl now r1 (trim c) True (uuidv4 P (uuidCalls w)))"
    using free by (simp add: createSingleUrl_custom [OF c1 ne' ne] sanitizeShortcode_valid [OF ok] iu)
  show ?thesis
    by (simp add: createUrls_fst Let_def fv createEach_Cons ce addUrls_fst nothrow)
qed

lemma trim_promo: "trim ''promo'' = ''promo''"
  by (simp add: trim_def isWhiteSpace_def)

lemma promo_valid: "validation_isValidShortcode ''promo''"
  by (simp add: validation_isValidShortcode_def isAlnum_def)

lemma promoRequest_valid: "fst (validateUrlRequest (examplePlatform rnd) promoRequest w) = []"
  by (simp add: validateUrlRequest_def promoRequest_def Let_def isValidUrl_def
      examplePlatform_def trim_promo promo_valid) (simp add: trim_def isWhiteSpace_def)

section \<open>Properties of a batch\<close>

text \<open>
  Claim C2. For a batch of one to five requests, whatever each request does in validation,
  the response of \<open>createUrls\<close> has as many successes and errors together as the batch has
  requests. \<open>createUrls\<close> returns no response only when writing the new records to
  \<^verbatim>\<open>localStorage\<close> throws, and then it fails with the storage error.
\<close>

theorem createUrls_accounts_for_every_request:
  assumes "1 \<le> length requests" and "length requests \<le> 5"
  shows "case fst (createUrls P now requests w) of
           Inr response \<Rightarrow>
             length (success response) + length (errors response) = length requests
         | Inl e \<Rightarrow> e = Error ''Failed to save data to storage'' \<and> (\<exists>d. setItemThrows P d)"
proof -
  let ?w1 = "logUrlEvent ''Bulk URL creation started'' w"
  let ?v = "validateUrlRequests P requests ?w1"
  let ?e0 = "map (\<lambda>(index, validationErrors).
                (index, join '', '' (map message validationErrors))) (snd (fst ?v))"
  let ?c = "createEach P now requests (fst (fst ?v)) ([], ?e0, snd ?v)"
  have len: "length (fst ?c) + length (fst (snd ?c)) = length requests"
    using createEach_lengths [of P now requests "fst (fst ?v)" "[]" ?e0 "snd ?v"]
      validateUrlRequests_lengths [OF assms, of P ?w1]
    by simp
  show ?thesis
  proof (cases "length (fst ?c) > 0 \<and> fst (addUrls P (fst ?c) (snd (snd ?c))) \<noteq> Inr ()")
    case True
    then have "\<exists>d. setItemThrows P d"
      by (auto simp: addUrls_fst split: if_splits)
    with True show ?thesis by (simp add: createUrls_fst Let_def)
  next
    case False
    then have "fst (createUrls P now requests w) = Inr \<lparr>success = fst ?c, errors = fst (snd ?c)\<rparr>"
      unfolding createUrls_fst Let_def by (simp only: if_False)
    then show ?thesis using len by simp
  qed
qed

theorem createUrls_accounts_for_every_request_witness:
  "1 \<le> length [exampleRequest\<lparr>req_originalUrl := ''ftp://a''\<rparr>, exampleRequest] \<and>
   length [exampleRequest\<lparr>req_originalUrl := ''ftp://a''\<rparr>, exampleRequest] \<le> 5 \<and>
   fst (createUrls (examplePlatform collisionsAfterFirst) 7
        [exampleRequest\<lparr>req_originalUrl := ''ftp://a''\<rparr>, exampleRequest] exampleWorld) =
     Inr \<lparr>success = [\<lparr>url_id = Some (JStr ''u''), originalUrl = Some (JStr ''https://a.com''),
                       shortcode = Some (JStr ''bbbbbb''), createdAt = Some 7, expiresAt = Some 1800007,
                       validityMinutes = Some (JNum 30), clicks = [], isCustomShortcode = Some (JBool False)\<rparr>],
          errors = [(0, ''Invalid URL format. Must start with http:// or https://'')]\<rparr> \<and>
   (case fst (createUrls (examplePlatform collisionsAfterFirst) 7
        [exampleRequest\<lparr>req_originalUrl := ''ftp://a''\<rparr>, exampleRequest] exampleWorld) of
      Inr response \<Rightarrow> length (success response) + length (errors response) = 2
    | Inl e \<Rightarrow> False)"
proof -
  let ?P = "examplePlatform collisionsAfterFirst"
  let ?bad = "exampleRequest\<lparr>req_originalUrl := ''ftp://a''\<rparr>"
  let ?rs = "[?bad, exampleRequest]"
  let ?msg = "''Invalid URL format. Must start with http:// or https://''"
  have gb: "requestedCode ?bad = None" by (simp add: requestedCode_def exampleRequest_def)
  have vb: "fst (validateUrlRequest ?P ?bad w') = [\<lparr>field = ''originalUrl'', message = ?msg\<rparr>]" for w'
    by (simp add: validateUrlRequest_def exampleRequest_def Let_def isValidUrl_def
        examplePlatform_def trim_def isWhiteSpace_def)
  have v1: "fst (validateUrlRequest ?P exampleRequest w') = []" for w'
    by (rule exampleRequest_valid)
  have fv: "fst (validateUrlRequests ?P ?rs w') =
      ([exampleRequest], [(0, [\<lparr>field = ''originalUrl'', message = ?msg\<rparr>])])" for w'
    by (simp add: validateUrlRequests_def split_beta validateEach_Cons_requested
        gb vb v1 exampleRequest_generated)
  let ?wa = "snd (validateUrlRequests ?P ?rs (logUrlEvent ''Bulk URL creation started'' exampleWorld))"
  have rc: "randomCalls exampleWorld = 0" and uc: "uuidCalls exampleWorld = 0"
    by (simp_all add: exampleWorld_def)
  have u: "fst (isShortcodeInUse ?P c w') = (c = ''aaaaaa'')"
    if "localStorage w' = localStorage exampleWorld" for c w'
    using that by (rule exampleWorld_inUse)
  have n0: "nthGenerated ?P ?wa 0 = ''bbbbbb''"
    by (simp add: nthGenerated_example rc collisionsAfterFirst_def charAt_chars_1)
  have first: "\<not> fst (isShortcodeInUse ?P (nthGenerated ?P ?wa 0) ?wa)"
    by (simp add: u n0)
  have s0: "fst (createSingleUrl ?P 7 exampleRequest ?wa) =
      Inr (newShortUrl 7 exampleRequest ''bbbbbb'' False ''u'')"
    using createSingleUrl_first_free(1) [OF exampleRequest_generated _ _ first, of 7]
    by (simp add: n0 uc)
  have nu: "newShortUrl 7 exampleRequest ''bbbbbb'' False ''u'' =
      \<lparr>url_id = Some (JStr ''u''), originalUrl = Some (JStr ''https://a.com''),
         shortcode = Some (JStr ''bbbbbb''), createdAt = Some 7, expiresAt = Some 1800007,
         validityMinutes = Some (JNum 30), clicks = [], isCustomShortcode = Some (JBool False)\<rparr>"
    by (simp add: newShortUrl_def exampleRequest_def sanitizeUrl_def trim_def isWhiteSpace_def)
  have c: "fst (createUrls ?P 7 ?rs exampleWorld) =
      Inr \<lparr>success = [newShortUrl 7 exampleRequest ''bbbbbb'' False ''u''],
           errors = [(0, ?msg)]\<rparr>"
    by (simp add: createUrls_fst Let_def fv createEach_Cons s0 addUrls_fst)
  have len: "1 \<le> length ?rs" "length ?rs \<le> 5" by simp_all
  show ?thesis
    using createUrls_accounts_for_every_request [OF len, of ?P 7 exampleWorld] c
    by (simp add: nu)
qed

text \<open>
  Claim C3, as the code has it. For a request without a custom shortcode, generation makes a
  first attempt and up to ten retries. When the first eleven generated codes are all in use,
  \<open>generateUniqueShortcode\<close> throws the generation error, \<open>createSingleUrl\<close> fails with
  it, the loop of \<open>createUrls\<close> records it among the errors and adds no record, and a batch
  of that one valid request returns no success and the generation error at index 0, a
  creation failure and not a validation error. When one of the first eleven codes is free,
  the first free one becomes the shortcode.
\<close>

theorem generation_exhausted_after_eleven:
  assumes "requestedCode request = None"
  shows "((\<forall>k<11. fst (isShortcodeInUse P (nthGenerated P w k) w)) \<longrightarrow>
            fst (generateUniqueShortcode P 0 w) = Inl (Error generationError) \<and>
            fst (createSingleUrl P now request w) = Inl (Error generationError) \<and>
            createEach P now requests (request # rest) (succ, errs, w) =
              createEach P now requests rest
                (succ,
                 errs @ [(findIndex (\<lambda>q. req_originalUrl q = req_originalUrl request \<and>
                            req_customShortcode q = req_customShortcode request) requests,
                          generationError)],
                 snd (createSingleUrl P now request w)) \<and>
            (fst (validateUrlRequest P request w) = [] \<longrightarrow>
               fst (createUrls P now [request] w) =
                 Inr \<lparr>success = [], errors = [(0, generationError)]\<rparr>)) \<and>
         (\<forall>j\<le>10. (\<forall>k<j. fst (isShortcodeInUse P (nthGenerated P w k) w)) \<and>
                  \<not> fst (isShortcodeInUse P (nthGenerated P w j) w) \<longrightarrow>
            fst (generateUniqueShortcode P 0 w) = Inr (nthGenerated P w j) \<and>
            (\<exists>u. fst (createSingleUrl P now request w) = Inr u \<and> shortcode u = Some (JStr (nthGenerated P w j))))"
proof (intro conjI impI allI)
  assume a: "\<forall>k<11. fst (isShortcodeInUse P (nthGenerated P w k) w)"
  then have used: "fst (isShortcodeInUse P (nthGenerated P w k) w)" if "k < 11" for k
    using that by simp
  show g: "fst (generateUniqueShortcode P 0 w) = Inl (Error generationError)"
    unfolding generationError_def by (rule generateUniqueShortcode_exhausted) (simp add: used)
  show c: "fst (createSingleUrl P now request w) = Inl (Error generationError)"
    unfolding generationError_def by (rule createSingleUrl_exhausted [OF assms used])
  show "createEach P now requests (request # rest) (succ, errs, w) =
      createEach P now requests rest
        (succ,
         errs @ [(findIndex (\<lambda>q. req_originalUrl q = req_originalUrl request \<and>
                    req_customShortcode q = req_customShortcode request) requests,
                  generationError)],
         snd (createSingleUrl P now request w))"
    by (simp add: createEach_Cons c)
  {
    assume v: "fst (validateUrlRequest P request w) = []"
    show "fst (createUrls P now [request] w) =
        Inr \<lparr>success = [], errors = [(0, generationError)]\<rparr>"
      by (rule createUrls_single_exhausted [OF assms v used])
  }
next
  fix j
  assume j: "j \<le> 10"
    and b: "(\<forall>k<j. fst (isShortcodeInUse P (nthGenerated P w k) w)) \<and>
            \<not> fst (isShortcodeInUse P (nthGenerated P w j) w)"
  have j': "j < 11 - 0" using j by simp
  have j'': "j < 11" using j by simp
  have p: "fst (isShortcodeInUse P (nthGenerated P w k) w)" if "k < j" for k
    using b that by simp
  have q: "\<not> fst (isShortcodeInUse P (nthGenerated P w j) w)" using b by simp
  show "fst (generateUniqueShortcode P 0 w) = Inr (nthGenerated P w j)"
    using generateUniqueShortcode_first_free [OF j' p q] by simp
  show "\<exists>u. fst (createSingleUrl P now request w) = Inr u \<and> shortcode u = Some (JStr (nthGenerated P w j))"
    using createSingleUrl_first_free(1) [OF assms j'' p q, of now]
    by (simp add: newShortUrl_def)
qed

theorem generation_exhausted_after_eleven_witness:
  "requestedCode exampleRequest = None \<and>
   fst (createUrls (examplePlatform zeroDraws) 7 [exampleRequest] exampleWorld) =
     Inr \<lparr>success = [], errors = [(0, generationError)]\<rparr> \<and>
   fst (generateUniqueShortcode (examplePlatform tenCollisions) 0 exampleWorld) = Inr ''bbbbbb''"
proof -
  let ?Z = "examplePlatform zeroDraws"
  let ?T = "examplePlatform tenCollisions"
  have rc: "randomCalls exampleWorld = 0" by (simp add: exampleWorld_def)
  have z: "nthGenerated ?Z exampleWorld k = ''aaaaaa''" for k
    by (simp add: nthGenerated_example zeroDraws_def charAt_chars_0)
  have a: "nthGenerated ?T exampleWorld k = ''aaaaaa''" if "k < 10" for k
    using that by (simp add: nthGenerated_example rc tenCollisions_def charAt_chars_0)
  have b: "nthGenerated ?T exampleWorld 10 = ''bbbbbb''"
    by (simp add: nthGenerated_example rc tenCollisions_def charAt_chars_1)
  have u: "fst (isShortcodeInUse (examplePlatform rnd) c exampleWorld) = (c = ''aaaaaa'')" for c rnd
    by (rule exampleWorld_inUse) simp
  have allz: "\<forall>k<11. fst (isShortcodeInUse ?Z (nthGenerated ?Z exampleWorld k) exampleWorld)"
    by (simp add: z u)
  have tenT: "(\<forall>k<10. fst (isShortcodeInUse ?T (nthGenerated ?T exampleWorld k) exampleWorld)) \<and>
      \<not> fst (isShortcodeInUse ?T (nthGenerated ?T exampleWorld 10) exampleWorld)"
    by (simp add: a b u)
  note t = generation_exhausted_after_eleven [OF exampleRequest_generated]
  have one: "fst (createUrls ?Z 7 [exampleRequest] exampleWorld) =
     Inr \<lparr>success = [], errors = [(0, generationError)]\<rparr>"
    using t [of ?Z exampleWorld 7, THEN conjunct1] allz exampleRequest_valid [of zeroDraws exampleWorld]
    by simp
  have two: "fst (generateUniqueShortcode ?T 0 exampleWorld) = Inr ''bbbbbb''"
    using t [of ?T exampleWorld 7, THEN conjunct2, rule_format, of 10] tenT b by simp
  show ?thesis using one two exampleRequest_generated by simp
qed

text \<open>
  Claim C3 as stated fails: with the first ten generated codes in use and the eleventh
  free, \<open>createUrls\<close> records no error and creates the record with the eleventh code.
\<close>

theorem ten_collisions_then_success:
  "map (nthGenerated (examplePlatform tenCollisions) exampleWorld) [0..<11] =
     [''aaaaaa'', ''aaaaaa'', ''aaaaaa'', ''aaaaaa'', ''aaaaaa'',
      ''aaaaaa'', ''aaaaaa'', ''aaaaaa'', ''aaaaaa'', ''aaaaaa'', ''bbbbbb''] \<and>
   fst (isShortcodeInUse (examplePlatform tenCollisions) ''aaaaaa'' exampleWorld) \<and>
   req_customShortcode exampleRequest = None \<and>
   fst (createUrls (examplePlatform tenCollisions) 7 [exampleRequest] exampleWorld) =
     Inr \<lparr>success = [\<lparr>url_id = Some (JStr ''u''), originalUrl = Some (JStr ''https://a.com''),
                       shortcode = Some (JStr ''bbbbbb''), createdAt = Some 7, expiresAt = Some 1800007,
                       validityMinutes = Some (JNum 30), clicks = [], isCustomShortcode = Some (JBool False)\<rparr>],
          errors = []\<rparr>"
proof -
  let ?P = "examplePlatform tenCollisions"
  have rc: "randomCalls exampleWorld = 0" by (simp add: exampleWorld_def)
  have a: "nthGenerated ?P exampleWorld k = ''aaaaaa''" if "k < 10" for k
    using that by (simp add: nthGenerated_example rc tenCollisions_def charAt_chars_0)
  have b: "nthGenerated ?P exampleWorld 10 = ''bbbbbb''"
    by (simp add: nthGenerated_example rc tenCollisions_def charAt_chars_1)
  have m: "map (nthGenerated ?P exampleWorld) [0..<11] =
     [''aaaaaa'', ''aaaaaa'', ''aaaaaa'', ''aaaaaa'', ''aaaaaa'',
      ''aaaaaa'', ''aaaaaa'', ''aaaaaa'', ''aaaaaa'', ''aaaaaa'', ''bbbbbb'']"
    by (simp add: upt_11 a b)
  have u: "fst (isShortcodeInUse ?P c exampleWorld) = (c = ''aaaaaa'')" for c
    by (rule exampleWorld_inUse) simp
  have used: "fst (isShortcodeInUse ?P (nthGenerated ?P exampleWorld k) exampleWorld)"
    if "k < 10" for k
    using that by (simp add: a u)
  have free: "\<not> fst (isShortcodeInUse ?P (nthGenerated ?P exampleWorld 10) exampleWorld)"
    by (simp add: b u)
  have c: "fst (createUrls ?P 7 [exampleRequest] exampleWorld) =
     Inr \<lparr>success = [newShortUrl 7 exampleRequest (nthGenerated ?P exampleWorld 10) False
                       (uuidv4 ?P (uuidCalls exampleWorld))],
          errors = []\<rparr>"
    by (rule createUrls_single_created [OF exampleRequest_generated exampleRequest_valid _ used free])
      simp_all
  have uc: "uuidCalls exampleWorld = 0" by (simp add: exampleWorld_def)
  have rq: "req_customShortcode exampleRequest = None" by (simp add: exampleRequest_def)
  have nu: "newShortUrl 7 exampleRequest ''bbbbbb'' False ''u'' =
      \<lparr>url_id = Some (JStr ''u''), originalUrl = Some (JStr ''https://a.com''),
         shortcode = Some (JStr ''bbbbbb''), createdAt = Some 7, expiresAt = Some 1800007,
         validityMinutes = Some (JNum 30), clicks = [], isCustomShortcode = Some (JBool False)\<rparr>"
    by (simp add: newShortUrl_def exampleRequest_def sanitizeUrl_def trim_def isWhiteSpace_def)
  show ?thesis using m u c rq by (simp add: b uc nu)
qed

text \<open>
  Claim C4. The index of a creation failure is claimed to be the position of the failing
  request in the input. The loop of \<open>createUrls\<close> looks the failing request up by
  \<^verbatim>\<open>originalUrl\<close> and \<^verbatim>\<open>customShortcode\<close> with \<^verbatim>\<open>findIndex\<close>, which returns the first
  request with these two values. Here two requests have the same URL and no custom
  shortcode; the first (validity 60) is created, the second (default validity) exhausts the
  generation, and its error carries index 0 and not 1.
\<close>

theorem error_index_of_repeated_request:
  "fst (validateUrlRequests (examplePlatform collisionsAfterFirst)
        [exampleRequest\<lparr>req_validityMinutes := Some 60\<rparr>, exampleRequest] exampleWorld) =
     ([exampleRequest\<lparr>req_validityMinutes := Some 60\<rparr>, exampleRequest], []) \<and>
   fst (createUrls (examplePlatform collisionsAfterFirst) 7
        [exampleRequest\<lparr>req_validityMinutes := Some 60\<rparr>, exampleRequest] exampleWorld) =
     Inr \<lparr>success = [\<lparr>url_id = Some (JStr ''u''), originalUrl = Some (JStr ''https://a.com''),
                       shortcode = Some (JStr ''bbbbbb''), createdAt = Some 7, expiresAt = Some 3600007,
                       validityMinutes = Some (JNum 60), clicks = [], isCustomShortcode = Some (JBool False)\<rparr>],
          errors = [(0, generationError)]\<rparr>"
proof -
  let ?P = "examplePlatform collisionsAfterFirst"
  let ?r0 = "exampleRequest\<lparr>req_validityMinutes := Some 60\<rparr>"
  let ?rs = "[?r0, exampleRequest]"
  have g0: "requestedCode ?r0 = None" by (simp add: requestedCode_def exampleRequest_def)
  have v0: "fst (validateUrlRequest ?P ?r0 w') = []" for w'
    by (simp add: validateUrlRequest_def exampleRequest_def Let_def isValidUrl_def
        examplePlatform_def trim_def isWhiteSpace_def isValidValidityMinutes_def)
  have v1: "fst (validateUrlRequest ?P exampleRequest w') = []" for w'
    by (rule exampleRequest_valid)
  have fv: "fst (validateUrlRequests ?P ?rs w') = (?rs, [])" for w'
    by (simp add: validateUrlRequests_def split_beta
        validateEach_valid_generated [OF v0 g0]
        validateEach_valid_generated [OF v1 exampleRequest_generated])
  let ?wa = "snd (validateUrlRequests ?P ?rs (logUrlEvent ''Bulk URL creation started'' exampleWorld))"
  have rc: "randomCalls exampleWorld = 0" and uc: "uuidCalls exampleWorld = 0"
    by (simp_all add: exampleWorld_def)
  have u: "fst (isShortcodeInUse ?P c w') = (c = ''aaaaaa'')"
    if "localStorage w' = localStorage exampleWorld" for c w'
    using that by (rule exampleWorld_inUse)
  have first: "\<not> fst (isShortcodeInUse ?P (nthGenerated ?P ?wa 0) ?wa)"
    by (simp add: u nthGenerated_example rc collisionsAfterFirst_def charAt_chars_1)
  have n0: "nthGenerated ?P ?wa 0 = ''bbbbbb''"
    by (simp add: nthGenerated_example rc collisionsAfterFirst_def charAt_chars_1)
  note c0 = createSingleUrl_first_free [OF g0 _ _ first, of 7]
  have s0: "fst (createSingleUrl ?P 7 ?r0 ?wa) = Inr (newShortUrl 7 ?r0 ''bbbbbb'' False ''u'')"
    using c0(1) by (simp add: n0 uc)
  let ?wb = "snd (createSingleUrl ?P 7 ?r0 ?wa)"
  have rb: "randomCalls ?wb = 6" using c0(2) by (simp add: rc)
  have e1: "fst (createSingleUrl ?P 7 exampleRequest ?wb) = Inl (Error generationError)"
    unfolding generationError_def
  proof (rule createSingleUrl_exhausted [OF exampleRequest_generated])
    fix k :: nat
    assume "k < 11"
    show "fst (isShortcodeInUse ?P (nthGenerated ?P ?wb k) ?wb)"
      by (simp add: u nthGenerated_example rb collisionsAfterFirst_def charAt_chars_0)
  qed
  have nu: "newShortUrl 7 ?r0 ''bbbbbb'' False ''u'' =
      \<lparr>url_id = Some (JStr ''u''), originalUrl = Some (JStr ''https://a.com''),
         shortcode = Some (JStr ''bbbbbb''), createdAt = Some 7, expiresAt = Some 3600007,
         validityMinutes = Some (JNum 60), clicks = [], isCustomShortcode = Some (JBool False)\<rparr>"
    by (simp add: newShortUrl_def exampleRequest_def sanitizeUrl_def trim_def isWhiteSpace_def)
  have ix: "findIndex (\<lambda>q. req_originalUrl q = req_originalUrl exampleRequest \<and>
                 req_customShortcode q = req_customShortcode exampleRequest) ?rs = 0"
    by (simp add: exampleRequest_def)
  have "fst (createUrls ?P 7 ?rs exampleWorld) =
      Inr \<lparr>success = [newShortUrl 7 ?r0 ''bbbbbb'' False ''u''], errors = [(0, generationError)]\<rparr>"
    by (simp add: createUrls_fst Let_def fv createEach_Cons s0 e1 ix addUrls_fst)
  then show ?thesis by (simp add: fv nu)
qed

text \<open>
  Claim C5. In a batch of one to five requests, a request whose trimmed custom shortcode
  was already asked for by an earlier request of the batch gets the duplicate error, after
  its own validation errors, at its own index, in the result of the validator and in the
  errors of \<open>createUrls\<close>. Two requests with the same valid custom shortcode, the first of
  them valid, the shortcode not in use and the storage writable, give exactly one success,
  with that shortcode, and one error at index 1 that ends with the duplicate message.
\<close>

theorem duplicate_custom_shortcode_in_batch:
  "(1 \<le> length requests \<and> length requests \<le> 5 \<and> i < j \<and> j < length requests \<and>
      requestedCode (requests ! i) = Some t \<and> requestedCode (requests ! j) = Some t \<longrightarrow>
      (int j, fst (validateUrlRequest P (requests ! j) w) @ [duplicateError])
         \<in> set (snd (fst (validateUrlRequests P requests w))) \<and>
      (\<forall>response. fst (createUrls P now requests w) = Inr response \<longrightarrow>
         (int j, join '', '' (map message
                   (fst (validateUrlRequest P (requests ! j) w) @ [duplicateError])))
           \<in> set (errors response))) \<and>
   (req_customShortcode r1 = Some c \<and> req_customShortcode r2 = Some c \<and>
      validation_isValidShortcode (trim c) \<and> fst (validateUrlRequest P r1 w) = [] \<and>
      \<not> fst (isShortcodeInUse P (trim c) w) \<and> (\<forall>d. \<not> setItemThrows P d) \<longrightarrow>
      fst (createUrls P now [r1, r2] w) =
        Inr \<lparr>success = [newShortUrl now r1 (trim c) True (uuidv4 P (uuidCalls w))],
             errors = [(1, join '', '' (map message
                          (fst (validateUrlRequest P r2 w) @ [duplicateError])))]\<rparr>)"
proof (intro conjI impI allI)
  assume a: "1 \<le> length requests \<and> length requests \<le> 5 \<and> i < j \<and> j < length requests \<and>
      requestedCode (requests ! i) = Some t \<and> requestedCode (requests ! j) = Some t"
  then have len: "\<not> length requests = 0" "\<not> length requests > 5" by auto
  have d: "(0 + int j, fst (validateUrlRequest P (requests ! j) w) @ [duplicateError])
      \<in> set (fst (snd (validateEach P requests 0 ([], [], {}, w'))))" for w'
    using a by (intro validateEach_duplicates) auto
  show m: "(int j, fst (validateUrlRequest P (requests ! j) w) @ [duplicateError])
         \<in> set (snd (fst (validateUrlRequests P requests w')))" for w'
    using d [of w'] len by (simp add: validateUrlRequests_def split_beta)
  fix response
  assume r: "fst (createUrls P now requests w) = Inr response"
  show "(int j, join '', '' (map message
                   (fst (validateUrlRequest P (requests ! j) w) @ [duplicateError])))
           \<in> set (errors response)"
    by (rule createUrls_errors_include_validation [OF r m])
next
  assume b: "req_customShortcode r1 = Some c \<and> req_customShortcode r2 = Some c \<and>
      validation_isValidShortcode (trim c) \<and> fst (validateUrlRequest P r1 w) = [] \<and>
      \<not> fst (isShortcodeInUse P (trim c) w) \<and> (\<forall>d. \<not> setItemThrows P d)"
  show "fst (createUrls P now [r1, r2] w) =
        Inr \<lparr>success = [newShortUrl now r1 (trim c) True (uuidv4 P (uuidCalls w))],
             errors = [(1, join '', '' (map message
                          (fst (validateUrlRequest P r2 w) @ [duplicateError])))]\<rparr>"
    using b by (intro createUrls_same_custom_twice) simp_all
qed

theorem duplicate_custom_shortcode_in_batch_witness:
  "requestedCode promoRequest = Some ''promo'' \<and>
   (1, [duplicateError]) \<in> set (snd (fst (validateUrlRequests (examplePlatform zeroDraws)
        [promoRequest, promoRequest] exampleWorld))) \<and>
   fst (createUrls (examplePlatform zeroDraws) 7 [promoRequest, promoRequest] exampleWorld) =
     Inr \<lparr>success = [\<lparr>url_id = Some (JStr ''u''), originalUrl = Some (JStr ''https://a.com''),
                       shortcode = Some (JStr ''promo''), createdAt = Some 7, expiresAt = Some 1800007,
                       validityMinutes = Some (JNum 30), clicks = [], isCustomShortcode = Some (JBool True)\<rparr>],
          errors = [(1, ''Duplicate shortcode in request'')]\<rparr>"
proof -
  let ?P = "examplePlatform zeroDraws"
  have q: "requestedCode promoRequest = Some ''promo''"
    by (simp add: requestedCode_def promoRequest_def trim_promo)
  have c: "req_customShortcode promoRequest = Some ''promo''" by (simp add: promoRequest_def)
  have f: "\<not> fst (isShortcodeInUse ?P ''promo'' exampleWorld)"
    by (simp add: exampleWorld_inUse)
  have uc: "uuidCalls exampleWorld = 0" by (simp add: exampleWorld_def)
  have nu: "newShortUrl 7 promoRequest ''promo'' True ''u'' =
      \<lparr>url_id = Some (JStr ''u''), originalUrl = Some (JStr ''https://a.com''),
         shortcode = Some (JStr ''promo''), createdAt = Some 7, expiresAt = Some 1800007,
         validityMinutes = Some (JNum 30), clicks = [], isCustomShortcode = Some (JBool True)\<rparr>"
    by (simp add: newShortUrl_def promoRequest_def sanitizeUrl_def trim_def isWhiteSpace_def)
  note t = duplicate_custom_shortcode_in_batch [of "[promoRequest, promoRequest]" 0 1 "''promo''"
      ?P exampleWorld 7 promoRequest "''promo''" promoRequest]
  have g: "(1, [duplicateError]) \<in> set (snd (fst (validateUrlRequests ?P
        [promoRequest, promoRequest] exampleWorld)))"
    using t [THEN conjunct1] q by (simp add: promoRequest_valid)
  have s: "fst (createUrls ?P 7 [promoRequest, promoRequest] exampleWorld) =
     Inr \<lparr>success = [newShortUrl 7 promoRequest ''promo'' True ''u''],
          errors = [(1, ''Duplicate shortcode in request'')]\<rparr>"
    using t [THEN conjunct2] c f
    by (simp add: trim_promo promo_valid promoRequest_valid uc duplicateError_def)
  show ?thesis using q g s by (simp add: nu)
qed

text \<open>
  Claim C6. An empty batch, or one of more than five requests, is rejected as a whole: the
  validator passes no request through and returns the single general error at index 0,
  \<open>createUrls\<close> returns no success and that one error, and nothing is written to the
  storage.
\<close>

theorem oversized_or_empty_batch_rejected:
  assumes "length requests = 0 \<or> length requests > 5"
  shows "fst (validateUrlRequests P requests w) =
           ([], [(0, [\<lparr>field = ''general'',
                      message = (if length requests = 0 then ''At least one URL is required''
                                 else ''Maximum 5 URLs allowed per request'')\<rparr>])]) \<and>
         fst (createUrls P now requests w) =
           Inr \<lparr>success = [],
                errors = [(0, if length requests = 0 then ''At least one URL is required''
                              else ''Maximum 5 URLs allowed per request'')]\<rparr> \<and>
         localStorage (snd (createUrls P now requests w)) = localStorage w"
proof -
  have v: "fst (validateUrlRequests P requests w') =
           ([], [(0, [\<lparr>field = ''general'',
                      message = (if length requests = 0 then ''At least one URL is required''
                                 else ''Maximum 5 URLs allowed per request'')\<rparr>])])" for w'
    by (rule validateUrlRequests_rejected [OF assms])
  show ?thesis
    by (simp add: v createUrls_def split_beta Let_def)
qed

theorem oversized_or_empty_batch_rejected_witness:
  "length (replicate 6 exampleRequest) > 5 \<and>
   fst (createUrls (examplePlatform zeroDraws) 7 (replicate 6 exampleRequest) exampleWorld) =
     Inr \<lparr>success = [], errors = [(0, ''Maximum 5 URLs allowed per request'')]\<rparr> \<and>
   fst (createUrls (examplePlatform zeroDraws) 7 [] exampleWorld) =
     Inr \<lparr>success = [], errors = [(0, ''At least one URL is required'')]\<rparr> \<and>
   localStorage (snd (createUrls (examplePlatform zeroDraws) 7 (replicate 6 exampleRequest)
      exampleWorld)) = localStorage exampleWorld"
  using oversized_or_empty_batch_rejected [of "replicate 6 exampleRequest"
      "examplePlatform zeroDraws" exampleWorld 7]
    oversized_or_empty_batch_rejected [of "[]" "examplePlatform zeroDraws" exampleWorld 7]
  by simp

end
